theory Spec2Isabelle
  imports Main
begin

section \<open>Frame-Sync: the frame delay engine of src/content.js\<close>

text \<open>
  The content script keeps, for every video element of the page, a ring of canvases
  (class \<open>BufferFrame\<close>) into which the video is sampled on every animation frame, and an
  overlay canvas onto which the sample closest to \<open>now - frameDelayMs\<close> is painted (class
  \<open>FrameSync\<close>). The script's main logic (\<open>updateSyncForVideos\<close>) creates, updates and
  tears down one \<open>FrameSync\<close> per video.

  Modelling decisions.
  \<^item> JavaScript objects that are shared and mutated (video elements, \<open>FrameSync\<close> objects)
    live in an explicit store, addressed by natural numbers; a method takes the page and
    the address of \<open>this\<close> and returns the page after the call. \<open>BufferFrame\<close> objects
    and canvases are owned by exactly one \<open>FrameSync\<close> and are stored by value.
  \<^item> Timestamps and delays are values of any ordered ring \<open>'t\<close> (integers, rationals,
    reals): arithmetic is exact, the rounding of IEEE doubles is not modelled.
    \<open>Infinity\<close> is written out as \<open>None\<close> where the code uses it.
  \<^item> \<open>maxBuffer\<close> and \<open>frameCount\<close> are integers; \<open>%\<close> is JavaScript's remainder, which
    is \<open>NaN\<close> for a zero divisor. Reading a property of \<open>undefined\<close> is a \<open>TypeError\<close>.
  \<^item> A canvas is its bitmap size and an abstract value for what was last painted on it;
    the CSS placement of the overlay carries no property here and is left out.
  \<^item> \<open>console\<close> collects the diagnostics that were logged, \<open>raf\<close> the callbacks handed
    to \<open>requestAnimationFrame\<close>.
  \<^item> A method that can throw returns \<open>error + page\<close>. The host is taken to behave: a video
    found by \<open>querySelectorAll\<close> has a parent element, \<open>getContext('2d')\<close> returns a
    context, and painting a video onto a canvas does not throw. Painting a canvas onto the
    overlay can fail, as the host decides (\<open>fails\<close>).
  \<^item> \<open>frameCount\<close> counts without bound (a double counts exactly up to \<open>2^53\<close>), and a
    capacity is a whole number.
\<close>

subsection \<open>Data\<close>

type_synonym vid = nat
type_synonym ref = nat

datatype error = TypeError | InvalidStateError | HostRenderError

datatype diagnostic =
    Error_maxBuffer_at_least_2
  | Warn_buffer_overflow
  | Error_drawing_frame error

datatype callback = CaptureFrameFunc ref | DrawFrameFunc ref

record Canvas =
  width :: nat
  height :: nat
  pixels :: "nat option"

record HTMLVideoElement =
  videoWidth :: nat
  videoHeight :: nat
  paused :: bool
  picture :: nat
  frameSyncObj :: "ref option"

record 't BufferFrame =
  frame :: Canvas
  bf_video :: vid
  captureTs :: 't

record 't FrameSync =
  video :: vid
  buffer :: "'t BufferFrame list"
  maxBuffer :: int
  frameDelayMs :: 't
  active :: bool
  frameCount :: int
  lastDrawnFrameIndex :: int
  resizeObserver :: "vid option"
  canvas :: "Canvas option"

record 't page =
  videos :: "vid \<Rightarrow> HTMLVideoElement"
  videoList :: "vid list"
  hidden :: bool
  heap :: "ref \<Rightarrow> 't FrameSync"
  next_ref :: ref
  console :: "diagnostic list"
  raf :: "callback list"
  currentFrameDelay :: 't
  isPaused :: bool

subsection \<open>Host primitives\<close>

definition createElement_canvas :: Canvas where
  "createElement_canvas = \<lparr>width = 300, height = 150, pixels = None\<rparr>"

definition requestAnimationFrame :: "'t page \<Rightarrow> callback \<Rightarrow> 't page" where
  "requestAnimationFrame w cb = w\<lparr>raf := raf w @ [cb]\<rparr>"

definition console_log :: "'t page \<Rightarrow> diagnostic \<Rightarrow> 't page" where
  "console_log w d = w\<lparr>console := console w @ [d]\<rparr>"

text \<open>\<open>a % b\<close>: the sign of the dividend, \<open>NaN\<close> (here \<open>None\<close>) for \<open>b = 0\<close>.\<close>

definition js_rem :: "int \<Rightarrow> int \<Rightarrow> int option" where
  "js_rem a b = (if b = 0 then None else Some (sgn a * (\<bar>a\<bar> mod \<bar>b\<bar>)))"

text \<open>\<open>xs[i]\<close>: the element and its position, or \<open>undefined\<close> (here \<open>None\<close>) when \<open>i\<close> is
  \<open>NaN\<close> or no index of the array.\<close>

definition js_index :: "'a list \<Rightarrow> int option \<Rightarrow> (nat \<times> 'a) option" where
  "js_index xs i =
     (case i of
        None \<Rightarrow> None
      | Some k \<Rightarrow> if 0 \<le> k \<and> k < int (length xs) then Some (nat k, xs ! nat k) else None)"

text \<open>\<open>ctx.drawImage(video, 0, 0, w, h)\<close>: the picture the video shows is painted over
  the whole bitmap, if there is one.\<close>

definition drawImage_video :: "HTMLVideoElement \<Rightarrow> Canvas \<Rightarrow> Canvas" where
  "drawImage_video v dst =
     (if width dst = 0 \<or> height dst = 0 then dst else dst\<lparr>pixels := Some (picture v)\<rparr>)"

text \<open>\<open>ctx.drawImage(source, 0, 0, w, h)\<close> with a canvas as the source: the host refuses a
  source without pixels, and may fail for reasons of its own (\<open>fails\<close>).\<close>

definition drawImage_canvas :: "bool \<Rightarrow> Canvas \<Rightarrow> Canvas \<Rightarrow> error + Canvas" where
  "drawImage_canvas fails src dst =
     (if width src = 0 \<or> height src = 0 then Inl InvalidStateError
      else if fails then Inl HostRenderError
      else Inr (if width dst = 0 \<or> height dst = 0 then dst else dst\<lparr>pixels := pixels src\<rparr>))"

subsection \<open>class BufferFrame\<close>

definition BufferFrame_Resize :: "'t page \<Rightarrow> 't BufferFrame \<Rightarrow> 't BufferFrame" where
  "BufferFrame_Resize w bf =
     (let v = videos w (bf_video bf)
      in bf\<lparr>frame := (frame bf)\<lparr>width := videoWidth v, height := videoHeight v, pixels := None\<rparr>\<rparr>)"

definition BufferFrame_new :: "('t::zero) page \<Rightarrow> vid \<Rightarrow> 't BufferFrame" where
  "BufferFrame_new w v =
     BufferFrame_Resize w \<lparr>frame = createElement_canvas, bf_video = v, captureTs = 0\<rparr>"

definition CaptureFrame :: "'t page \<Rightarrow> 't \<Rightarrow> 't BufferFrame \<Rightarrow> 't BufferFrame" where
  "CaptureFrame w now bf =
     (let v = videos w (bf_video bf)
      in if videoWidth v > 0 \<and> videoHeight v > 0
         then bf\<lparr>frame := drawImage_video v (frame bf), captureTs := now\<rparr>
         else bf)"

subsection \<open>class FrameSync\<close>

definition SetMaxBuffer :: "('t::zero) page \<Rightarrow> ref \<Rightarrow> int \<Rightarrow> 't page" where
  "SetMaxBuffer w this n =
     (if n < 2 then console_log w Error_maxBuffer_at_least_2
      else w\<lparr>heap := (heap w)(this := (heap w this)
             \<lparr>buffer := replicate (nat n) (BufferFrame_new w (video (heap w this))),
              maxBuffer := n,
              frameCount := 0,
              lastDrawnFrameIndex := - 1\<rparr>)\<rparr>)"

text \<open>\<open>new FrameSync(video, maxBuffer, frameDelayMs)\<close>: the object the expression
  evaluates to, and the page afterwards. When the video already carries a
  \<open>frameSyncObj\<close>, the constructor returns that object.\<close>

definition FrameSync_new :: "('t::zero) page \<Rightarrow> vid \<Rightarrow> int \<Rightarrow> 't \<Rightarrow> ref \<times> 't page" where
  "FrameSync_new w v n d =
     (case frameSyncObj (videos w v) of
        Some existing \<Rightarrow>
          (existing, w\<lparr>heap := (heap w)(existing := (heap w existing)\<lparr>frameDelayMs := d\<rparr>)\<rparr>)
      | None \<Rightarrow>
          (let this = next_ref w;
               w1 = w\<lparr>heap := (heap w)(this :=
                       \<lparr>video = v, buffer = [], maxBuffer = 0, frameDelayMs = d,
                        active = False, frameCount = 0, lastDrawnFrameIndex = - 1,
                        resizeObserver = None, canvas = None\<rparr>),
                     next_ref := Suc this\<rparr>;
               w2 = SetMaxBuffer w1 this n
           in (this, w2\<lparr>videos := (videos w2)(v := (videos w2 v)\<lparr>frameSyncObj := Some this\<rparr>)\<rparr>)))"

text \<open>The loop of \<open>Resize\<close>: \<open>this.buffer[i].Resize()\<close> for every \<open>i < maxBuffer\<close>.\<close>

fun Resize_loop :: "'t page \<Rightarrow> nat list \<Rightarrow> 't BufferFrame list \<Rightarrow> error + 't BufferFrame list" where
  "Resize_loop w [] buf = Inr buf"
| "Resize_loop w (i # rest) buf =
     (if i < length buf then Resize_loop w rest (buf[i := BufferFrame_Resize w (buf ! i)])
      else Inl TypeError)"

definition Resize :: "'t page \<Rightarrow> ref \<Rightarrow> error + 't page" where
  "Resize w this =
     (let s = heap w this; v = videos w (video s)
      in case canvas s of
           None \<Rightarrow> Inr w
         | Some c \<Rightarrow>
             if videoWidth v = 0 \<or> videoHeight v = 0 then Inr w
             else (let c' = c\<lparr>width := videoWidth v, height := videoHeight v, pixels := None\<rparr>
                   in case Resize_loop w [0 ..< nat (maxBuffer s)] (buffer s) of
                        Inl e \<Rightarrow> Inl e
                      | Inr buf \<Rightarrow>
                          Inr (w\<lparr>heap := (heap w)(this := s\<lparr>canvas := Some c', buffer := buf\<rparr>)\<rparr>)))"

definition createCanvasOverlay :: "'t page \<Rightarrow> ref \<Rightarrow> error + 't page" where
  "createCanvasOverlay w this =
     (case canvas (heap w this) of
        Some c \<Rightarrow> Inr w
      | None \<Rightarrow>
          (case Resize (w\<lparr>heap := (heap w)(this :=
                             (heap w this)\<lparr>canvas := Some createElement_canvas\<rparr>)\<rparr>) this of
             Inl e \<Rightarrow> Inl e
           | Inr w1 \<Rightarrow>
               Inr (w1\<lparr>heap := (heap w1)(this :=
                          (heap w1 this)\<lparr>resizeObserver := Some (video (heap w1 this))\<rparr>)\<rparr>)))"

definition captureFrame :: "('t::linordered_idom) page \<Rightarrow> ref \<Rightarrow> 't \<Rightarrow> error + 't page" where
  "captureFrame w this now =
     (let s = heap w this
      in if \<not> active s \<or> paused (videos w (video s)) \<or> hidden w
         then Inr (requestAnimationFrame w (CaptureFrameFunc this))
         else
           (let nextFrameIndex = js_rem (frameCount s) (maxBuffer s)
            in case js_index (buffer s) nextFrameIndex of
                 None \<Rightarrow> Inl TypeError
               | Some (i, slot) \<Rightarrow>
                   (let w1 = (if captureTs slot \<noteq> 0 \<and> now - captureTs slot < frameDelayMs s
                              then console_log w Warn_buffer_overflow else w);
                        s1 = s\<lparr>buffer := (buffer s)[i := CaptureFrame w1 now slot]\<rparr>;
                        s2 = s1\<lparr>frameCount := frameCount s1 + 1\<rparr>
                    in Inr (requestAnimationFrame (w1\<lparr>heap := (heap w1)(this := s2)\<rparr>)
                              (CaptureFrameFunc this)))))"

text \<open>The loop of \<open>_findBestFrameToShow\<close>, from slot \<open>i\<close> on; \<open>smallestDiff = None\<close> is
  \<open>Infinity\<close>.\<close>

fun findBest_loop ::
  "('t::linordered_idom) BufferFrame list \<Rightarrow> 't \<Rightarrow> nat \<Rightarrow> int \<Rightarrow> 't option \<Rightarrow> int" where
  "findBest_loop [] targetTs i bestFrameIndex smallestDiff = bestFrameIndex"
| "findBest_loop (f # rest) targetTs i bestFrameIndex smallestDiff =
     (if captureTs f = 0 then findBest_loop rest targetTs (Suc i) bestFrameIndex smallestDiff
      else
        (let diff = \<bar>captureTs f - targetTs\<bar>
         in if (case smallestDiff of None \<Rightarrow> True | Some m \<Rightarrow> diff < m)
            then findBest_loop rest targetTs (Suc i) (int i) (Some diff)
            else findBest_loop rest targetTs (Suc i) bestFrameIndex smallestDiff))"

definition findBestFrameToShow :: "('t::linordered_idom) FrameSync \<Rightarrow> 't \<Rightarrow> int" where
  "findBestFrameToShow s targetTs = findBest_loop (buffer s) targetTs 0 (- 1) None"

definition drawFrame :: "('t::linordered_idom) page \<Rightarrow> ref \<Rightarrow> 't \<Rightarrow> bool \<Rightarrow> error + 't page" where
  "drawFrame w this now fails =
     (let s = heap w this
      in if \<not> active s \<or> paused (videos w (video s))
         then Inr (requestAnimationFrame w (DrawFrameFunc this))
         else
           (let targetTs = now - frameDelayMs s;
                bestFrameIndex = findBestFrameToShow s targetTs
            in if bestFrameIndex \<noteq> - 1 \<and> bestFrameIndex \<noteq> lastDrawnFrameIndex s
               then
                 (case js_index (buffer s) (Some bestFrameIndex) of
                    None \<Rightarrow> Inl TypeError
                  | Some (i, slot) \<Rightarrow>
                      (let frameToDraw = frame slot
                       in if width frameToDraw > 0 \<and> height frameToDraw > 0
                          then
                            (case (case canvas s of
                                     None \<Rightarrow> Inl TypeError
                                   | Some c \<Rightarrow> drawImage_canvas fails frameToDraw c) of
                               Inr c' \<Rightarrow>
                                 Inr (requestAnimationFrame
                                        (w\<lparr>heap := (heap w)(this :=
                                              s\<lparr>canvas := Some c',
                                                lastDrawnFrameIndex := bestFrameIndex\<rparr>)\<rparr>)
                                        (DrawFrameFunc this))
                             | Inl e \<Rightarrow>
                                 Inr (requestAnimationFrame
                                        (console_log w (Error_drawing_frame e))
                                        (DrawFrameFunc this)))
                          else Inr (requestAnimationFrame w (DrawFrameFunc this))))
               else Inr (requestAnimationFrame w (DrawFrameFunc this))))"

definition Activate :: "'t page \<Rightarrow> ref \<Rightarrow> error + 't page" where
  "Activate w this =
     (if active (heap w this) then Inr w
      else
        (case createCanvasOverlay
                (w\<lparr>heap := (heap w)(this := (heap w this)\<lparr>active := True\<rparr>)\<rparr>) this of
           Inl e \<Rightarrow> Inl e
         | Inr w1 \<Rightarrow>
             Inr (requestAnimationFrame
                    (requestAnimationFrame w1 (CaptureFrameFunc this))
                    (DrawFrameFunc this))))"

definition Deactivate :: "'t page \<Rightarrow> ref \<Rightarrow> 't page" where
  "Deactivate w this =
     (let s = heap w this;
          s1 = s\<lparr>active := False\<rparr>;
          s2 = (case canvas s1 of Some c \<Rightarrow> s1\<lparr>canvas := None\<rparr> | None \<Rightarrow> s1);
          s3 = (case resizeObserver s2 of Some ob \<Rightarrow> s2\<lparr>resizeObserver := None\<rparr> | None \<Rightarrow> s2);
          v = video s3
      in w\<lparr>heap := (heap w)(this := s3),
           videos := (videos w)(v := (videos w v)\<lparr>frameSyncObj := None\<rparr>)\<rparr>)"

subsection \<open>Main logic\<close>

text \<open>The body of the \<open>forEach\<close> in \<open>updateSyncForVideos\<close>, for one video.\<close>

definition updateSyncForVideo :: "('t::linordered_idom) page \<Rightarrow> vid \<Rightarrow> error + 't page" where
  "updateSyncForVideo w v =
     (if currentFrameDelay w > 0 \<and> \<not> isPaused w
      then
        (case frameSyncObj (videos w v) of
           None \<Rightarrow> (case FrameSync_new w v 60 (currentFrameDelay w) of
                      (frameSync, w1) \<Rightarrow> Activate w1 frameSync)
         | Some obj \<Rightarrow>
             Inr (w\<lparr>heap := (heap w)(obj := (heap w obj)\<lparr>frameDelayMs := currentFrameDelay w\<rparr>)\<rparr>))
      else
        (case frameSyncObj (videos w v) of
           Some obj \<Rightarrow> Inr (Deactivate w obj)
         | None \<Rightarrow> Inr w))"

fun forEach_video :: "('t::linordered_idom) page \<Rightarrow> vid list \<Rightarrow> error + 't page" where
  "forEach_video w [] = Inr w"
| "forEach_video w (v # vs) =
     (case updateSyncForVideo w v of Inl e \<Rightarrow> Inl e | Inr w1 \<Rightarrow> forEach_video w1 vs)"

definition updateSyncForVideos :: "('t::linordered_idom) page \<Rightarrow> error + 't page" where
  "updateSyncForVideos w = forEach_video w (videoList w)"

text \<open>The listener of \<open>browser.storage.onChanged\<close> for the area \<open>sync\<close>:
  \<open>frameDelay\<close> and \<open>pauseDelay\<close> are the changed values, already parsed, when present.\<close>

definition onChanged :: "('t::linordered_idom) page \<Rightarrow> 't option \<Rightarrow> bool option \<Rightarrow> error + 't page" where
  "onChanged w frameDelay pauseDelay =
     (let w1 = (case frameDelay of Some d \<Rightarrow> w\<lparr>currentFrameDelay := d\<rparr> | None \<Rightarrow> w);
          w2 = (case pauseDelay of Some p \<Rightarrow> w1\<lparr>isPaused := p\<rparr> | None \<Rightarrow> w1)
      in updateSyncForVideos w2)"

subsection \<open>Runs and reference objects\<close>

text \<open>Consecutive cycles of the capture loop, one per timestamp; a cycle that throws ends
  the run.\<close>

fun capture_cycles :: "('t::linordered_idom) page \<Rightarrow> ref \<Rightarrow> 't list \<Rightarrow> error + 't page" where
  "capture_cycles w this [] = Inr w"
| "capture_cycles w this (now # rest) =
     (case captureFrame w this now of Inl e \<Rightarrow> Inl e | Inr w1 \<Rightarrow> capture_cycles w1 this rest)"

text \<open>What the constructor and \<open>SetMaxBuffer\<close> establish for a session of valid capacity.\<close>

definition ring_ok :: "'t FrameSync \<Rightarrow> bool" where
  "ring_ok s \<longleftrightarrow>
     2 \<le> maxBuffer s \<and> int (length (buffer s)) = maxBuffer s \<and> 0 \<le> frameCount s \<and>
     list_all (\<lambda>f. bf_video f = video s) (buffer s)"

definition empty_ring :: "('t::zero) FrameSync \<Rightarrow> bool" where
  "empty_ring s \<longleftrightarrow> frameCount s = 0 \<and> list_all (\<lambda>f. captureTs f = 0) (buffer s)"

text \<open>A page with one playing video of 640 by 360 pixels and no session yet.\<close>

definition example_video :: HTMLVideoElement where
  "example_video =
     \<lparr>videoWidth = 640, videoHeight = 360, paused = False, picture = 7, frameSyncObj = None\<rparr>"

definition unallocated :: "int FrameSync" where
  "unallocated =
     \<lparr>video = 0, buffer = [], maxBuffer = 0, frameDelayMs = 0, active = False, frameCount = 0,
      lastDrawnFrameIndex = - 1, resizeObserver = None, canvas = None\<rparr>"

definition example_page :: "int page" where
  "example_page =
     \<lparr>videos = (\<lambda>_. example_video), videoList = [0], hidden = False,
      heap = (\<lambda>_. unallocated), next_ref = 0, console = [], raf = [],
      currentFrameDelay = 0, isPaused = False\<rparr>"

text \<open>\<open>new FrameSync(video 0, n, d)\<close> on the example page, activated, followed by capture
  cycles at the given timestamps.\<close>

definition example_run :: "int \<Rightarrow> int \<Rightarrow> int list \<Rightarrow> error + int page" where
  "example_run n d ts =
     (case FrameSync_new example_page 0 n d of
        (this, w) \<Rightarrow>
          (case Activate w this of Inl e \<Rightarrow> Inl e | Inr w1 \<Rightarrow> capture_cycles w1 this ts))"

text \<open>What a session keeps across calls that only touch the overlay and the bitmaps.\<close>

definition same_ring :: "'t FrameSync \<Rightarrow> 't FrameSync \<Rightarrow> bool" where
  "same_ring s s' \<longleftrightarrow>
     video s' = video s \<and> maxBuffer s' = maxBuffer s \<and> frameDelayMs s' = frameDelayMs s \<and>
     frameCount s' = frameCount s \<and> lastDrawnFrameIndex s' = lastDrawnFrameIndex s \<and>
     length (buffer s') = length (buffer s) \<and>
     map captureTs (buffer s') = map captureTs (buffer s) \<and>
     map bf_video (buffer s') = map bf_video (buffer s)"

definition same_env :: "'t page \<Rightarrow> 't page \<Rightarrow> bool" where
  "same_env w w' \<longleftrightarrow>
     videos w' = videos w \<and> videoList w' = videoList w \<and> hidden w' = hidden w \<and>
     next_ref w' = next_ref w \<and> console w' = console w \<and>
     currentFrameDelay w' = currentFrameDelay w \<and> isPaused w' = isPaused w"

text \<open>The overflow test of the capture loop, on the slot about to be written.\<close>

definition overflow_detected :: "('t::linordered_idom) FrameSync \<Rightarrow> 't \<Rightarrow> bool" where
  "overflow_detected s now \<longleftrightarrow>
     (let slot = buffer s ! nat (frameCount s mod maxBuffer s)
      in captureTs slot \<noteq> 0 \<and> now - captureTs slot < frameDelayMs s)"

text \<open>The example page once a session of capacity \<open>n\<close> and delay \<open>d\<close> is active.\<close>

definition example_session :: "int \<Rightarrow> int \<Rightarrow> int page" where
  "example_session n d = (case example_run n d [] of Inr w \<Rightarrow> w | Inl e \<Rightarrow> example_page)"

text \<open>The example session when its video reports no width.\<close>

definition example_no_width :: "int page" where
  "example_no_width =
     (example_session 2 10)\<lparr>videos := (\<lambda>_. example_video\<lparr>videoWidth := 0, frameSyncObj := Some 0\<rparr>)\<rparr>"

text \<open>The example session after a capture at time 5, with a positive configured delay.\<close>

definition example_captured :: "int page" where
  "example_captured =
     (case capture_cycles (example_session 2 10) 0 [5] of
        Inr w \<Rightarrow> w\<lparr>currentFrameDelay := 10\<rparr>
      | Inl e \<Rightarrow> example_page)"

subsection \<open>The script as a whole\<close>

text \<open>What the browser can make the script do: deliver a change of the stored settings,
  report added nodes, run the scheduled animation-frame callbacks, deliver a resize
  observation to a connected observer, or change the page itself (video sizes, pause state,
  pictures, visibility, the list of videos) without touching \<open>frameSyncObj\<close>.\<close>

datatype 't event =
    StorageChanged "'t option" "bool option"
  | NodesAdded
  | AnimationFrame 't "ref \<Rightarrow> bool"
  | ResizeObserved ref
  | HostChanged "vid \<Rightarrow> HTMLVideoElement" bool "vid list"

definition callback_ref :: "callback \<Rightarrow> ref" where
  "callback_ref cb = (case cb of CaptureFrameFunc r \<Rightarrow> r | DrawFrameFunc r \<Rightarrow> r)"

text \<open>An animation frame runs the callbacks scheduled so far, in order and with the same
  timestamp; what they schedule runs in a later frame. The result is an error as soon as
  one of them throws.\<close>

fun run_callbacks ::
  "('t::linordered_idom) page \<Rightarrow> callback list \<Rightarrow> 't \<Rightarrow> (ref \<Rightarrow> bool) \<Rightarrow> error + 't page" where
  "run_callbacks w [] now fails = Inr w"
| "run_callbacks w (cb # rest) now fails =
     (case (case cb of
              CaptureFrameFunc r \<Rightarrow> captureFrame w r now
            | DrawFrameFunc r \<Rightarrow> drawFrame w r now (fails r)) of
        Inl e \<Rightarrow> Inl e
      | Inr w1 \<Rightarrow> run_callbacks w1 rest now fails)"

definition step :: "('t::linordered_idom) page \<Rightarrow> 't event \<Rightarrow> error + 't page" where
  "step w e =
     (case e of
        StorageChanged frameDelay pauseDelay \<Rightarrow> onChanged w frameDelay pauseDelay
      | NodesAdded \<Rightarrow> updateSyncForVideos w
      | AnimationFrame now fails \<Rightarrow> run_callbacks (w\<lparr>raf := []\<rparr>) (raf w) now fails
      | ResizeObserved r \<Rightarrow>
          if r < next_ref w \<and> resizeObserver (heap w r) \<noteq> None then Resize w r else Inr w
      | HostChanged vs h vl \<Rightarrow>
          Inr (w\<lparr>videos := (\<lambda>v. (vs v)\<lparr>frameSyncObj := frameSyncObj (videos w v)\<rparr>),
                 hidden := h, videoList := vl\<rparr>))"

definition initial :: "'t page \<Rightarrow> bool" where
  "initial w \<longleftrightarrow> next_ref w = 0 \<and> raf w = [] \<and> (\<forall>v. frameSyncObj (videos w v) = None)"

inductive reachable :: "('t::linordered_idom) page \<Rightarrow> bool" where
  start: "initial w \<Longrightarrow> reachable w"
| after: "reachable w \<Longrightarrow> step w e = Inr w' \<Longrightarrow> reachable w'"

definition script_inv :: "'t page \<Rightarrow> bool" where
  "script_inv w \<longleftrightarrow>
     (\<forall>v r. frameSyncObj (videos w v) = Some r \<longrightarrow>
        r < next_ref w \<and> video (heap w r) = v \<and> active (heap w r)) \<and>
     (\<forall>r < next_ref w. ring_ok (heap w r) \<and>
        (active (heap w r) \<longrightarrow> frameSyncObj (videos w (video (heap w r))) = Some r)) \<and>
     (\<forall>cb \<in> set (raf w). callback_ref cb < next_ref w)"

text \<open>A call on session \<open>r\<close> that leaves links, allocation and the other sessions alone.\<close>

definition keeps :: "ref \<Rightarrow> 't page \<Rightarrow> 't page \<Rightarrow> bool" where
  "keeps r w w' \<longleftrightarrow>
     (\<forall>v. frameSyncObj (videos w' v) = frameSyncObj (videos w v)) \<and> next_ref w' = next_ref w \<and>
     (\<forall>r'. r' \<noteq> r \<longrightarrow> heap w' r' = heap w r') \<and>
     video (heap w' r) = video (heap w r) \<and> active (heap w' r) = active (heap w r) \<and>
     ring_ok (heap w' r) \<and>
     (\<forall>cb \<in> set (raf w'). cb \<in> set (raf w) \<or> callback_ref cb = r)"

text \<open>The example page after the stored delay has changed to 100: the script has made and
  activated a session for video 0.\<close>

definition example_live :: "int page" where
  "example_live =
     (case step example_page (StorageChanged (Some 100) None) of
        Inr w \<Rightarrow> w
      | Inl e \<Rightarrow> example_page)"

text \<open>The live example after its first animation frame, at time 16, in which the host
  refused to paint the overlay: slot 0 has been captured, nothing has been drawn.\<close>

definition example_render_failed :: "int page" where
  "example_render_failed =
     (case step example_live (AnimationFrame 16 (\<lambda>_. True)) of
        Inr w \<Rightarrow> w
      | Inl e \<Rightarrow> example_page)"

text \<open>The example session after captures at times 5 and 200, with a configured delay of
  10.\<close>

definition example_two_frames :: "int page" where
  "example_two_frames =
     (case capture_cycles (example_session 2 10) 0 [5, 200] of
        Inr w \<Rightarrow> w\<lparr>currentFrameDelay := 10\<rparr>
      | Inl e \<Rightarrow> example_page)"

section \<open>Properties\<close>

lemmas host_defs =
  requestAnimationFrame_def console_log_def createElement_canvas_def js_rem_def js_index_def
  drawImage_video_def

lemmas example_defs = example_run_def example_page_def example_video_def unallocated_def

lemma Deactivate_session:
  "(let s1 = s\<lparr>active := False\<rparr>;
        s2 = (case canvas s1 of Some c \<Rightarrow> s1\<lparr>canvas := None\<rparr> | None \<Rightarrow> s1);
        s3 = (case resizeObserver s2 of Some ob \<Rightarrow> s2\<lparr>resizeObserver := None\<rparr> | None \<Rightarrow> s2)
    in f s3) = f (s\<lparr>active := False, resizeObserver := None, canvas := None\<rparr>)"
  by (cases s) (simp add: Let_def split: option.split)

lemma Deactivate_eq:
  "Deactivate w this =
     w\<lparr>heap := (heap w)(this :=
          (heap w this)\<lparr>active := False, resizeObserver := None, canvas := None\<rparr>),
       videos := (videos w)(video (heap w this) :=
          (videos w (video (heap w this)))\<lparr>frameSyncObj := None\<rparr>)\<rparr>"
  unfolding Deactivate_def by (subst Deactivate_session) (simp add: Let_def)

subsection \<open>Resizing and activation keep the ring\<close>

lemma map_update_same:
  "i < length xs \<Longrightarrow> f x = f (xs ! i) \<Longrightarrow> map f (xs[i := x]) = map f xs"
  by (metis list_update_id map_update nth_map)

lemma BufferFrame_Resize_fields [simp]:
  "captureTs (BufferFrame_Resize w bf) = captureTs bf"
  "bf_video (BufferFrame_Resize w bf) = bf_video bf"
  by (simp_all add: BufferFrame_Resize_def Let_def)

lemma Resize_loop_ok:
  "\<forall>i \<in> set idxs. i < length buf \<Longrightarrow>
   \<exists>buf'. Resize_loop w idxs buf = Inr buf' \<and> length buf' = length buf \<and>
          map captureTs buf' = map captureTs buf \<and> map bf_video buf' = map bf_video buf"
proof (induction idxs arbitrary: buf)
  case Nil
  then show ?case by simp
next
  case (Cons i rest)
  let ?b = "buf[i := BufferFrame_Resize w (buf ! i)]"
  from Cons.prems have i: "i < length buf" and rest: "\<forall>j \<in> set rest. j < length ?b"
    by simp_all
  from Cons.IH [OF rest] obtain buf' where
    "Resize_loop w rest ?b = Inr buf'" "length buf' = length ?b"
    "map captureTs buf' = map captureTs ?b" "map bf_video buf' = map bf_video ?b"
    by blast
  with i show ?case
    by (simp add: map_update_same)
qed

lemma Resize_ok:
  assumes "int (length (buffer (heap w this))) = maxBuffer (heap w this)"
  shows "\<exists>w'. Resize w this = Inr w' \<and> same_env w w' \<and> raf w' = raf w \<and>
           (\<forall>r. r \<noteq> this \<longrightarrow> heap w' r = heap w r) \<and>
           same_ring (heap w this) (heap w' this) \<and>
           active (heap w' this) = active (heap w this) \<and>
           resizeObserver (heap w' this) = resizeObserver (heap w this) \<and>
           (canvas (heap w' this) = None \<longleftrightarrow> canvas (heap w this) = None)"
proof -
  have "\<forall>i \<in> set [0 ..< nat (maxBuffer (heap w this))]. i < length (buffer (heap w this))"
    using assms by auto
  from Resize_loop_ok [OF this, of w] obtain buf' where
    "Resize_loop w [0 ..< nat (maxBuffer (heap w this))] (buffer (heap w this)) = Inr buf'"
    "length buf' = length (buffer (heap w this))"
    "map captureTs buf' = map captureTs (buffer (heap w this))"
    "map bf_video buf' = map bf_video (buffer (heap w this))"
    by blast
  then show ?thesis
    by (simp add: Resize_def Let_def same_env_def same_ring_def split: option.split)
qed

lemma createCanvasOverlay_ok:
  assumes "int (length (buffer (heap w this))) = maxBuffer (heap w this)"
  shows "\<exists>w'. createCanvasOverlay w this = Inr w' \<and> same_env w w' \<and> raf w' = raf w \<and>
           (\<forall>r. r \<noteq> this \<longrightarrow> heap w' r = heap w r) \<and>
           same_ring (heap w this) (heap w' this) \<and>
           active (heap w' this) = active (heap w this) \<and>
           canvas (heap w' this) \<noteq> None"
proof (cases "canvas (heap w this)")
  case (Some c)
  then show ?thesis
    by (simp add: createCanvasOverlay_def same_env_def same_ring_def)
next
  case None
  let ?w1 = "w\<lparr>heap := (heap w)(this := (heap w this)\<lparr>canvas := Some createElement_canvas\<rparr>)\<rparr>"
  have "int (length (buffer (heap ?w1 this))) = maxBuffer (heap ?w1 this)"
    using assms by simp
  from Resize_ok [OF this] obtain w2 where
    w2: "Resize ?w1 this = Inr w2" "same_env ?w1 w2" "raf w2 = raf ?w1"
        "\<forall>r. r \<noteq> this \<longrightarrow> heap w2 r = heap ?w1 r"
        "same_ring (heap ?w1 this) (heap w2 this)"
        "active (heap w2 this) = active (heap ?w1 this)"
        "(canvas (heap w2 this) = None \<longleftrightarrow> canvas (heap ?w1 this) = None)"
    by (elim exE conjE)
  with None show ?thesis
    by (simp add: createCanvasOverlay_def same_env_def same_ring_def)
qed

lemma Activate_ok:
  assumes "int (length (buffer (heap w this))) = maxBuffer (heap w this)"
  shows "\<exists>w'. Activate w this = Inr w' \<and> same_env w w' \<and>
           (\<forall>r. r \<noteq> this \<longrightarrow> heap w' r = heap w r) \<and>
           same_ring (heap w this) (heap w' this) \<and>
           active (heap w' this)"
proof (cases "active (heap w this)")
  case True
  then show ?thesis
    by (simp add: Activate_def same_env_def same_ring_def)
next
  case False
  let ?w1 = "w\<lparr>heap := (heap w)(this := (heap w this)\<lparr>active := True\<rparr>)\<rparr>"
  have "int (length (buffer (heap ?w1 this))) = maxBuffer (heap ?w1 this)"
    using assms by simp
  from createCanvasOverlay_ok [OF this] obtain w2 where
    "createCanvasOverlay ?w1 this = Inr w2" "same_env ?w1 w2"
    "\<forall>r. r \<noteq> this \<longrightarrow> heap w2 r = heap ?w1 r"
    "same_ring (heap ?w1 this) (heap w2 this)"
    "active (heap w2 this) = active (heap ?w1 this)"
    by (elim exE conjE)
  with False show ?thesis
    by (simp add: Activate_def same_env_def same_ring_def requestAnimationFrame_def)
qed

subsection \<open>Frame selection\<close>

lemma findBest_loop_spec:
  fixes fs :: "('t::linordered_idom) BufferFrame list"
  shows "(findBest_loop fs t i best sd = best \<and>
            (\<forall>f \<in> set fs. captureTs f \<noteq> 0 \<longrightarrow> (\<exists>m. sd = Some m \<and> m \<le> \<bar>captureTs f - t\<bar>))) \<or>
         (\<exists>k < length fs.
            findBest_loop fs t i best sd = int (i + k) \<and> captureTs (fs ! k) \<noteq> 0 \<and>
            (\<forall>m. sd = Some m \<longrightarrow> \<bar>captureTs (fs ! k) - t\<bar> < m) \<and>
            (\<forall>f \<in> set fs. captureTs f \<noteq> 0 \<longrightarrow> \<bar>captureTs (fs ! k) - t\<bar> \<le> \<bar>captureTs f - t\<bar>) \<and>
            (\<forall>f \<in> set (take k fs). captureTs f \<noteq> 0 \<longrightarrow>
                 \<bar>captureTs (fs ! k) - t\<bar> < \<bar>captureTs f - t\<bar>))"
    (is "?stay fs i best sd \<or> ?move fs i best sd")
proof (induction fs arbitrary: i best sd)
  case Nil
  show ?case by simp
next
  case (Cons f rest)
  let ?d = "\<bar>captureTs f - t\<bar>"
  show ?case
  proof (cases "captureTs f = 0")
    case True
    from Cons.IH [of "Suc i" best sd] show ?thesis
    proof
      assume "?stay rest (Suc i) best sd"
      with True show ?thesis by simp
    next
      assume "?move rest (Suc i) best sd"
      then obtain k where k: "k < length rest"
        "findBest_loop rest t (Suc i) best sd = int (Suc i + k)" "captureTs (rest ! k) \<noteq> 0"
        "\<forall>m. sd = Some m \<longrightarrow> \<bar>captureTs (rest ! k) - t\<bar> < m"
        "\<forall>f \<in> set rest. captureTs f \<noteq> 0 \<longrightarrow> \<bar>captureTs (rest ! k) - t\<bar> \<le> \<bar>captureTs f - t\<bar>"
        "\<forall>f \<in> set (take k rest). captureTs f \<noteq> 0 \<longrightarrow>
             \<bar>captureTs (rest ! k) - t\<bar> < \<bar>captureTs f - t\<bar>"
        by (elim exE conjE)
      have "?move (f # rest) i best sd"
        by (rule exI [of _ "Suc k"]) (use True k in simp)
      then show ?thesis ..
    qed
  next
    case False
    show ?thesis
    proof (cases "case sd of None \<Rightarrow> True | Some m \<Rightarrow> ?d < m")
      case better: True
      from Cons.IH [of "Suc i" "int i" "Some ?d"] show ?thesis
      proof
        assume "?stay rest (Suc i) (int i) (Some ?d)"
        with False better have "?move (f # rest) i best sd"
          by (intro exI [of _ 0]) (auto simp: Let_def split: option.splits)
        then show ?thesis ..
      next
        assume "?move rest (Suc i) (int i) (Some ?d)"
        then obtain k where k: "k < length rest"
          "findBest_loop rest t (Suc i) (int i) (Some ?d) = int (Suc i + k)"
          "captureTs (rest ! k) \<noteq> 0"
          "\<bar>captureTs (rest ! k) - t\<bar> < ?d"
          "\<forall>f \<in> set rest. captureTs f \<noteq> 0 \<longrightarrow> \<bar>captureTs (rest ! k) - t\<bar> \<le> \<bar>captureTs f - t\<bar>"
          "\<forall>f \<in> set (take k rest). captureTs f \<noteq> 0 \<longrightarrow>
               \<bar>captureTs (rest ! k) - t\<bar> < \<bar>captureTs f - t\<bar>"
          by auto
        have "?move (f # rest) i best sd"
          by (rule exI [of _ "Suc k"]) (use False better k in \<open>auto simp: Let_def split: option.splits\<close>)
        then show ?thesis ..
      qed
    next
      case worse: False
      then obtain m where m: "sd = Some m" "m \<le> ?d"
        by (auto split: option.splits)
      from Cons.IH [of "Suc i" best sd] show ?thesis
      proof
        assume "?stay rest (Suc i) best sd"
        with False m show ?thesis by (simp add: Let_def)
      next
        assume "?move rest (Suc i) best sd"
        then obtain k where k: "k < length rest"
          "findBest_loop rest t (Suc i) best sd = int (Suc i + k)" "captureTs (rest ! k) \<noteq> 0"
          "\<bar>captureTs (rest ! k) - t\<bar> < m"
          "\<forall>f \<in> set rest. captureTs f \<noteq> 0 \<longrightarrow> \<bar>captureTs (rest ! k) - t\<bar> \<le> \<bar>captureTs f - t\<bar>"
          "\<forall>f \<in> set (take k rest). captureTs f \<noteq> 0 \<longrightarrow>
               \<bar>captureTs (rest ! k) - t\<bar> < \<bar>captureTs f - t\<bar>"
          using m by auto
        have "?move (f # rest) i best sd"
          by (rule exI [of _ "Suc k"]) (use False m k in \<open>auto simp: Let_def\<close>)
        then show ?thesis ..
      qed
    qed
  qed
qed

lemma findBestFrameToShow_spec:
  fixes s :: "('t::linordered_idom) FrameSync"
  shows "(if \<forall>j < length (buffer s). captureTs (buffer s ! j) = 0
          then findBestFrameToShow s targetTs = - 1
          else (\<exists>k < length (buffer s).
                  findBestFrameToShow s targetTs = int k \<and> captureTs (buffer s ! k) \<noteq> 0 \<and>
                  (\<forall>j < length (buffer s). captureTs (buffer s ! j) \<noteq> 0 \<longrightarrow>
                     \<bar>captureTs (buffer s ! k) - targetTs\<bar> \<le> \<bar>captureTs (buffer s ! j) - targetTs\<bar>) \<and>
                  (\<forall>j < k. captureTs (buffer s ! j) \<noteq> 0 \<longrightarrow>
                     \<bar>captureTs (buffer s ! k) - targetTs\<bar> < \<bar>captureTs (buffer s ! j) - targetTs\<bar>)))"
proof (cases "\<forall>j < length (buffer s). captureTs (buffer s ! j) = 0")
  case True
  then have "\<forall>f \<in> set (buffer s). captureTs f = 0"
    by (auto simp: in_set_conv_nth)
  with findBest_loop_spec [of "buffer s" targetTs 0 "- 1" None] True show ?thesis
    by (auto simp: findBestFrameToShow_def)
next
  case False
  then obtain f where "f \<in> set (buffer s)" "captureTs f \<noteq> 0"
    using nth_mem by blast
  with findBest_loop_spec [of "buffer s" targetTs 0 "- 1" None] obtain k where
    k: "k < length (buffer s)" "findBest_loop (buffer s) targetTs 0 (- 1) None = int k"
       "captureTs (buffer s ! k) \<noteq> 0"
       "\<forall>f \<in> set (buffer s). captureTs f \<noteq> 0 \<longrightarrow>
           \<bar>captureTs (buffer s ! k) - targetTs\<bar> \<le> \<bar>captureTs f - targetTs\<bar>"
       "\<forall>f \<in> set (take k (buffer s)). captureTs f \<noteq> 0 \<longrightarrow>
           \<bar>captureTs (buffer s ! k) - targetTs\<bar> < \<bar>captureTs f - targetTs\<bar>"
    by auto
  have "\<forall>j < k. captureTs (buffer s ! j) \<noteq> 0 \<longrightarrow>
          \<bar>captureTs (buffer s ! k) - targetTs\<bar> < \<bar>captureTs (buffer s ! j) - targetTs\<bar>"
  proof (intro allI impI)
    fix j assume "j < k" "captureTs (buffer s ! j) \<noteq> 0"
    with k(1) have "buffer s ! j \<in> set (take k (buffer s))"
      by (auto simp: in_set_conv_nth intro!: exI [of _ j])
    with k(5) \<open>captureTs (buffer s ! j) \<noteq> 0\<close> show
      "\<bar>captureTs (buffer s ! k) - targetTs\<bar> < \<bar>captureTs (buffer s ! j) - targetTs\<bar>"
      by blast
  qed
  with False k show ?thesis
    by (auto simp: findBestFrameToShow_def)
qed

subsection \<open>The capture loop\<close>

lemma js_rem_nonneg: "0 \<le> a \<Longrightarrow> 0 < b \<Longrightarrow> js_rem a b = Some (a mod b)"
  by (cases "a = 0") (simp_all add: js_rem_def)

lemma CaptureFrame_console [simp]:
  "CaptureFrame (w\<lparr>console := c\<rparr>) now bf = CaptureFrame w now bf"
  by (simp add: CaptureFrame_def)

lemma CaptureFrame_bf_video [simp]: "bf_video (CaptureFrame w now bf) = bf_video bf"
  by (simp add: CaptureFrame_def Let_def)

lemma ring_ok_slot:
  "ring_ok s \<Longrightarrow> nat (frameCount s mod maxBuffer s) < length (buffer s)"
  by (simp add: ring_ok_def nat_less_iff)

lemma list_all_update: "list_all P xs \<Longrightarrow> P x \<Longrightarrow> list_all P (xs[i := x])"
  by (auto simp: list_all_iff dest!: set_update_subset_insert [THEN subsetD])

lemma captureFrame_step:
  fixes w :: "('t::linordered_idom) page"
  assumes "ring_ok (heap w this)" "active (heap w this)"
    and "\<not> paused (videos w (video (heap w this)))" "\<not> hidden w"
  shows "captureFrame w this now =
           Inr (w\<lparr>heap := (heap w)(this := (heap w this)
                   \<lparr>buffer := (buffer (heap w this))
                       [nat (frameCount (heap w this) mod maxBuffer (heap w this)) :=
                          CaptureFrame w now
                            (buffer (heap w this) !
                               nat (frameCount (heap w this) mod maxBuffer (heap w this)))],
                    frameCount := frameCount (heap w this) + 1\<rparr>),
                  console := console w @
                    (if overflow_detected (heap w this) now then [Warn_buffer_overflow] else []),
                  raf := raf w @ [CaptureFrameFunc this]\<rparr>)"
proof -
  let ?s = "heap w this"
  let ?k = "frameCount ?s mod maxBuffer ?s"
  from assms(1) have b: "0 \<le> frameCount ?s" "0 < maxBuffer ?s"
    "int (length (buffer ?s)) = maxBuffer ?s"
    by (simp_all add: ring_ok_def)
  then have k: "0 \<le> ?k" "?k < int (length (buffer ?s))"
    by simp_all
  have idx: "js_index (buffer ?s) (js_rem (frameCount ?s) (maxBuffer ?s)) =
               Some (nat ?k, buffer ?s ! nat ?k)"
    using k by (simp add: js_rem_nonneg [OF b(1,2)] js_index_def)
  show ?thesis
    using assms(2-4)
    by (simp add: captureFrame_def idx Let_def overflow_detected_def requestAnimationFrame_def
        console_log_def)
qed

lemma captureFrame_keeps:
  fixes w :: "('t::linordered_idom) page"
  assumes "ring_ok (heap w this)" "active (heap w this)"
    and "\<not> paused (videos w (video (heap w this)))" "\<not> hidden w"
    and "captureFrame w this now = Inr w'"
  shows "ring_ok (heap w' this)" "active (heap w' this)"
    "videos w' = videos w" "hidden w' = hidden w" "video (heap w' this) = video (heap w this)"
    "maxBuffer (heap w' this) = maxBuffer (heap w this)"
    "frameDelayMs (heap w' this) = frameDelayMs (heap w this)"
    "frameCount (heap w' this) = frameCount (heap w this) + 1"
    "lastDrawnFrameIndex (heap w' this) = lastDrawnFrameIndex (heap w this)"
proof -
  let ?s = "heap w this"
  let ?i = "nat (frameCount ?s mod maxBuffer ?s)"
  from assms(1) have "bf_video (buffer ?s ! ?i) = video ?s"
    using ring_ok_slot [OF assms(1)] by (simp add: ring_ok_def list_all_length)
  then have "list_all (\<lambda>f. bf_video f = video ?s)
               ((buffer ?s)[?i := CaptureFrame w now (buffer ?s ! ?i)])"
    using assms(1) by (intro list_all_update) (simp_all add: ring_ok_def)
  with assms(1,5) show "ring_ok (heap w' this)"
    unfolding captureFrame_step [OF assms(1-4)] by (auto simp: ring_ok_def)
  from assms(2,5) show "active (heap w' this)"
    "videos w' = videos w" "hidden w' = hidden w" "video (heap w' this) = video (heap w this)"
    "maxBuffer (heap w' this) = maxBuffer (heap w this)"
    "frameDelayMs (heap w' this) = frameDelayMs (heap w this)"
    "frameCount (heap w' this) = frameCount (heap w this) + 1"
    "lastDrawnFrameIndex (heap w' this) = lastDrawnFrameIndex (heap w this)"
    unfolding captureFrame_step [OF assms(1-4)] by auto
qed

lemma capture_cycles_append:
  "capture_cycles w this (ts @ us) =
     (case capture_cycles w this ts of Inl e \<Rightarrow> Inl e | Inr w1 \<Rightarrow> capture_cycles w1 this us)"
  by (induction ts arbitrary: w) (simp_all split: sum.split)

lemma capture_cycles_ok:
  fixes w :: "('t::linordered_idom) page"
  assumes "ring_ok (heap w this)" "active (heap w this)"
    and "\<not> paused (videos w (video (heap w this)))" "\<not> hidden w"
  shows "\<exists>w'. capture_cycles w this ts = Inr w' \<and> ring_ok (heap w' this) \<and> active (heap w' this) \<and>
           videos w' = videos w \<and> hidden w' = hidden w \<and>
           video (heap w' this) = video (heap w this) \<and>
           maxBuffer (heap w' this) = maxBuffer (heap w this) \<and>
           frameDelayMs (heap w' this) = frameDelayMs (heap w this) \<and>
           frameCount (heap w' this) = frameCount (heap w this) + int (length ts) \<and>
           lastDrawnFrameIndex (heap w' this) = lastDrawnFrameIndex (heap w this)"
  using assms
proof (induction ts arbitrary: w)
  case Nil
  then show ?case by simp
next
  case (Cons now rest)
  from captureFrame_step [OF Cons.prems] obtain w1 where w1: "captureFrame w this now = Inr w1"
    by blast
  note keep = captureFrame_keeps [OF Cons.prems w1]
  from Cons.IH [of w1] keep Cons.prems obtain w' where
    "capture_cycles w1 this rest = Inr w'" "ring_ok (heap w' this)" "active (heap w' this)"
    "videos w' = videos w1" "hidden w' = hidden w1" "video (heap w' this) = video (heap w1 this)"
    "maxBuffer (heap w' this) = maxBuffer (heap w1 this)"
    "frameDelayMs (heap w' this) = frameDelayMs (heap w1 this)"
    "frameCount (heap w' this) = frameCount (heap w1 this) + int (length rest)"
    "lastDrawnFrameIndex (heap w' this) = lastDrawnFrameIndex (heap w1 this)"
    by auto
  with w1 keep show ?case by simp
qed

text \<open>A property of timestamps that holds in every slot and for every capture time holds in
  every slot afterwards.\<close>

lemma captureFrame_stamps:
  fixes w :: "('t::linordered_idom) page"
  assumes "ring_ok (heap w this)" "active (heap w this)"
    and "\<not> paused (videos w (video (heap w this)))" "\<not> hidden w"
    and "captureFrame w this now = Inr w'"
    and "list_all (\<lambda>f. P (captureTs f)) (buffer (heap w this))" "P now"
  shows "list_all (\<lambda>f. P (captureTs f)) (buffer (heap w' this))"
proof -
  let ?s = "heap w this"
  let ?i = "nat (frameCount ?s mod maxBuffer ?s)"
  from assms(6) have "P (captureTs (buffer ?s ! ?i))"
    using ring_ok_slot [OF assms(1)] by (simp add: list_all_length)
  with assms(7) have "P (captureTs (CaptureFrame w now (buffer ?s ! ?i)))"
    by (simp add: CaptureFrame_def Let_def)
  with assms(6) have "list_all (\<lambda>f. P (captureTs f))
                        ((buffer ?s)[?i := CaptureFrame w now (buffer ?s ! ?i)])"
    by (intro list_all_update)
  with assms(5) show ?thesis
    unfolding captureFrame_step [OF assms(1-4)] by auto
qed

lemma capture_cycles_stamps:
  fixes w :: "('t::linordered_idom) page"
  assumes "ring_ok (heap w this)" "active (heap w this)"
    and "\<not> paused (videos w (video (heap w this)))" "\<not> hidden w"
    and "capture_cycles w this ts = Inr w'"
    and "list_all (\<lambda>f. P (captureTs f)) (buffer (heap w this))" "list_all P ts"
  shows "list_all (\<lambda>f. P (captureTs f)) (buffer (heap w' this))"
  using assms
proof (induction ts arbitrary: w)
  case Nil
  then show ?case by simp
next
  case (Cons now rest)
  from captureFrame_step [OF Cons.prems(1-4)] obtain w1 where w1: "captureFrame w this now = Inr w1"
    by blast
  note keep = captureFrame_keeps [OF Cons.prems(1-4) w1]
  have "list_all (\<lambda>f. P (captureTs f)) (buffer (heap w1 this))"
    using captureFrame_stamps [OF Cons.prems(1-4) w1, of P] Cons.prems(6,7) by simp
  with Cons.IH [of w1] keep Cons.prems w1 show ?case
    by simp
qed

lemma sorted_wrt_butlast_less:
  fixes ts :: "('t::linordered_idom) list"
  assumes "sorted_wrt (<) ts" "ts \<noteq> []"
  shows "list_all (\<lambda>x. x < last ts) (butlast ts)"
proof -
  from assms(2) have "ts = butlast ts @ [last ts]" by simp
  then have "sorted_wrt (<) (butlast ts @ [last ts])" using assms(1) by simp
  then show ?thesis by (simp add: sorted_wrt_append list_all_iff)
qed

lemma sorted_wrt_hd_le_last:
  fixes ts :: "('t::linordered_idom) list"
  assumes "sorted_wrt (<) ts" "ts \<noteq> []"
  shows "hd ts \<le> last ts"
proof (cases ts)
  case Nil
  with assms(2) show ?thesis by simp
next
  case (Cons a rest)
  with assms(1) show ?thesis by (cases "rest = []") (auto simp: less_imp_le)
qed

subsection \<open>Construction\<close>

lemma BufferFrame_new_heap [simp]:
  "BufferFrame_new (w\<lparr>heap := h\<rparr>) v = BufferFrame_new w v"
  "BufferFrame_new (w\<lparr>next_ref := k\<rparr>) v = BufferFrame_new w v"
  by (simp_all add: BufferFrame_new_def BufferFrame_Resize_def)

lemma BufferFrame_new_fields [simp]:
  "captureTs (BufferFrame_new w v) = 0" "bf_video (BufferFrame_new w v) = v"
  by (simp_all add: BufferFrame_new_def)

lemma FrameSync_new_fresh:
  fixes w :: "('t::zero) page"
  assumes "frameSyncObj (videos w v) = None" "2 \<le> n"
  shows "FrameSync_new w v n d =
           (next_ref w,
            w\<lparr>heap := (heap w)(next_ref w :=
                  \<lparr>video = v, buffer = replicate (nat n) (BufferFrame_new w v), maxBuffer = n,
                   frameDelayMs = d, active = False, frameCount = 0, lastDrawnFrameIndex = - 1,
                   resizeObserver = None, canvas = None\<rparr>),
              next_ref := Suc (next_ref w),
              videos := (videos w)(v := (videos w v)\<lparr>frameSyncObj := Some (next_ref w)\<rparr>)\<rparr>)"
  using assms by (simp add: FrameSync_new_def SetMaxBuffer_def Let_def)

lemma same_ring_ok: "same_ring s s' \<Longrightarrow> ring_ok s \<Longrightarrow> ring_ok s'"
proof -
  assume a: "same_ring s s'" "ring_ok s"
  have "list_all (\<lambda>f. bf_video f = video s') (buffer s') \<longleftrightarrow>
        list_all (\<lambda>x. x = video s') (map bf_video (buffer s'))"
    by (simp add: list_all_iff)
  also have "\<dots> \<longleftrightarrow> list_all (\<lambda>x. x = video s) (map bf_video (buffer s))"
    using a(1) by (simp add: same_ring_def)
  also have "\<dots> \<longleftrightarrow> list_all (\<lambda>f. bf_video f = video s) (buffer s)"
    by (simp add: list_all_iff)
  finally show ?thesis
    using a by (simp add: ring_ok_def same_ring_def)
qed

lemma same_ring_empty:
  fixes s :: "('t::zero) FrameSync"
  shows "same_ring s s' \<Longrightarrow> empty_ring s \<Longrightarrow> empty_ring s'"
proof -
  assume a: "same_ring s s'" "empty_ring s"
  have "list_all (\<lambda>f. captureTs f = 0) (buffer s') \<longleftrightarrow>
        list_all (\<lambda>x. x = 0) (map captureTs (buffer s'))"
    by (simp add: list_all_iff)
  also have "\<dots> \<longleftrightarrow> list_all (\<lambda>x. x = 0) (map captureTs (buffer s))"
    using a(1) by (simp add: same_ring_def)
  also have "\<dots> \<longleftrightarrow> list_all (\<lambda>f. captureTs f = 0) (buffer s)"
    by (simp add: list_all_iff)
  finally show ?thesis
    using a by (simp add: empty_ring_def same_ring_def)
qed

text \<open>A new session of valid capacity, once activated.\<close>

lemma new_session_ready:
  fixes w :: "('t::zero) page"
  assumes "frameSyncObj (videos w v) = None" "2 \<le> n"
  shows "\<exists>w1 w2. FrameSync_new w v n d = (next_ref w, w1) \<and> Activate w1 (next_ref w) = Inr w2 \<and>
           ring_ok (heap w2 (next_ref w)) \<and> empty_ring (heap w2 (next_ref w)) \<and>
           active (heap w2 (next_ref w)) \<and> video (heap w2 (next_ref w)) = v \<and>
           maxBuffer (heap w2 (next_ref w)) = n \<and> frameDelayMs (heap w2 (next_ref w)) = d \<and>
           lastDrawnFrameIndex (heap w2 (next_ref w)) = - 1 \<and>
           (\<forall>r. r \<noteq> next_ref w \<longrightarrow> heap w2 r = heap w r) \<and>
           videos w2 = (videos w)(v := (videos w v)\<lparr>frameSyncObj := Some (next_ref w)\<rparr>) \<and>
           hidden w2 = hidden w \<and> console w2 = console w \<and> next_ref w2 = Suc (next_ref w) \<and>
           videoList w2 = videoList w \<and> currentFrameDelay w2 = currentFrameDelay w \<and>
           isPaused w2 = isPaused w"
proof -
  let ?r = "next_ref w"
  let ?s = "\<lparr>video = v, buffer = replicate (nat n) (BufferFrame_new w v), maxBuffer = n,
             frameDelayMs = d, active = False, frameCount = 0, lastDrawnFrameIndex = - 1,
             resizeObserver = None, canvas = None\<rparr>"
  let ?w1 = "w\<lparr>heap := (heap w)(?r := ?s), next_ref := Suc ?r,
               videos := (videos w)(v := (videos w v)\<lparr>frameSyncObj := Some ?r\<rparr>)\<rparr>"
  have new: "FrameSync_new w v n d = (?r, ?w1)"
    by (rule FrameSync_new_fresh [OF assms])
  have s: "ring_ok ?s" "empty_ring ?s"
    using assms(2) by (simp_all add: ring_ok_def empty_ring_def list_all_iff)
  have "int (length (buffer (heap ?w1 ?r))) = maxBuffer (heap ?w1 ?r)"
    using assms(2) by simp
  from Activate_ok [OF this] obtain w2 where
    w2: "Activate ?w1 ?r = Inr w2" "same_env ?w1 w2" "\<forall>r. r \<noteq> ?r \<longrightarrow> heap w2 r = heap ?w1 r"
        "same_ring (heap ?w1 ?r) (heap w2 ?r)" "active (heap w2 ?r)"
    by (elim exE conjE)
  from w2(4) have ring: "same_ring ?s (heap w2 ?r)"
    by simp
  from same_ring_ok [OF ring s(1)] same_ring_empty [OF ring s(2)] new w2 ring show ?thesis
    by (simp add: same_env_def same_ring_def)
qed

lemma example_session_ready:
  assumes "2 \<le> n"
  shows "ring_ok (heap (example_session n d) 0)" "empty_ring (heap (example_session n d) 0)"
    "active (heap (example_session n d) 0)" "video (heap (example_session n d) 0) = 0"
    "maxBuffer (heap (example_session n d) 0) = n" "frameDelayMs (heap (example_session n d) 0) = d"
    "lastDrawnFrameIndex (heap (example_session n d) 0) = - 1"
    "videos (example_session n d) 0 = example_video\<lparr>frameSyncObj := Some 0\<rparr>"
    "\<not> hidden (example_session n d)" "console (example_session n d) = []"
    "next_ref (example_session n d) = 1" "videoList (example_session n d) = [0]"
proof -
  have "frameSyncObj (videos example_page 0) = None" "next_ref example_page = 0"
    by (simp_all add: example_page_def example_video_def)
  from new_session_ready [OF this(1) assms, of d] this(2) obtain w1 w2 where
    *: "FrameSync_new example_page 0 n d = (0, w1)" "Activate w1 0 = Inr w2"
       "ring_ok (heap w2 0)" "empty_ring (heap w2 0)" "active (heap w2 0)" "video (heap w2 0) = 0"
       "maxBuffer (heap w2 0) = n" "frameDelayMs (heap w2 0) = d"
       "lastDrawnFrameIndex (heap w2 0) = - 1"
       "videos w2 = (videos example_page)(0 := (videos example_page 0)\<lparr>frameSyncObj := Some 0\<rparr>)"
       "hidden w2 = hidden example_page" "console w2 = console example_page"
       "next_ref w2 = Suc 0" "videoList w2 = videoList example_page"
    by auto
  then have eq: "example_session n d = w2"
    by (simp add: example_session_def example_run_def)
  from * show "ring_ok (heap (example_session n d) 0)" "empty_ring (heap (example_session n d) 0)"
    "active (heap (example_session n d) 0)" "video (heap (example_session n d) 0) = 0"
    "maxBuffer (heap (example_session n d) 0) = n" "frameDelayMs (heap (example_session n d) 0) = d"
    "lastDrawnFrameIndex (heap (example_session n d) 0) = - 1"
    "videos (example_session n d) 0 = example_video\<lparr>frameSyncObj := Some 0\<rparr>"
    "\<not> hidden (example_session n d)" "console (example_session n d) = []"
    "next_ref (example_session n d) = 1" "videoList (example_session n d) = [0]"
    unfolding eq by (simp_all add: example_page_def)
qed

lemma example_run_session:
  "2 \<le> n \<Longrightarrow> example_run n d ts = capture_cycles (example_session n d) 0 ts"
proof -
  assume n: "2 \<le> n"
  have "frameSyncObj (videos example_page 0) = None" "next_ref example_page = 0"
    by (simp_all add: example_page_def example_video_def)
  from new_session_ready [OF this(1) n, of d] this(2) obtain w1 w2 where
    "FrameSync_new example_page 0 n d = (0, w1)" "Activate w1 0 = Inr w2"
    by auto
  then show ?thesis
    by (simp add: example_session_def example_run_def)
qed

section \<open>Claims\<close>

subsection \<open>The write cursor\<close>

text \<open>
  C4. Starting from an empty ring of capacity \<open>C \<ge> 2\<close> (\<open>ring_ok\<close> holds the bound), with
  the session active and the video playing and visible, \<open>N \<ge> 1\<close> capture cycles all
  succeed; the slot the last cycle writes is \<open>(N - 1) mod C\<close>, and \<open>frameCount\<close> is \<open>N\<close>
  afterwards. When the video has valid dimensions that slot holds the last timestamp, and
  for increasing positive timestamps every other slot holds a smaller one.
\<close>

theorem capture_cycles_latest_slot:
  fixes w :: "('t::linordered_idom) page"
  assumes ok: "ring_ok (heap w this)" and empty: "empty_ring (heap w this)"
    and C: "maxBuffer (heap w this) = int C"
    and env: "active (heap w this)" "\<not> paused (videos w (video (heap w this)))" "\<not> hidden w"
    and ts: "ts \<noteq> []"
  shows "\<exists>w1 w'. capture_cycles w this (butlast ts) = Inr w1 \<and>
           captureFrame w1 this (last ts) = Inr w' \<and>
           capture_cycles w this ts = Inr w' \<and>
           js_rem (frameCount (heap w1 this)) (maxBuffer (heap w1 this)) =
             Some (int ((length ts - 1) mod C)) \<and>
           frameCount (heap w' this) = int (length ts) \<and>
           (0 < videoWidth (videos w (video (heap w this))) \<and>
            0 < videoHeight (videos w (video (heap w this))) \<longrightarrow>
              captureTs (buffer (heap w' this) ! ((length ts - 1) mod C)) = last ts \<and>
              (sorted_wrt (<) ts \<and> 0 < hd ts \<longrightarrow>
                 (\<forall>j < C. j \<noteq> (length ts - 1) mod C \<longrightarrow>
                    captureTs (buffer (heap w' this) ! j) < last ts)))"
proof -
  let ?N = "length ts"
  let ?i = "(?N - 1) mod C"
  from capture_cycles_ok [OF ok env, of "butlast ts"] obtain w1 where
    w1: "capture_cycles w this (butlast ts) = Inr w1" "ring_ok (heap w1 this)"
        "active (heap w1 this)" "videos w1 = videos w" "hidden w1 = hidden w"
        "video (heap w1 this) = video (heap w this)"
        "maxBuffer (heap w1 this) = maxBuffer (heap w this)"
        "frameCount (heap w1 this) = frameCount (heap w this) + int (length (butlast ts))"
    by (elim exE conjE)
  from empty ts w1(8) have fc: "frameCount (heap w1 this) = int (?N - 1)"
    by (simp add: empty_ring_def)
  have env1: "\<not> paused (videos w1 (video (heap w1 this)))" "\<not> hidden w1"
    using env w1 by simp_all
  from ok C have Cpos: "0 < C" and len: "length (buffer (heap w this)) = C"
    by (simp_all add: ring_ok_def)
  have idx: "nat (frameCount (heap w1 this) mod maxBuffer (heap w1 this)) = ?i"
    by (simp add: fc w1(7) C flip: zmod_int)
  have len1: "length (buffer (heap w1 this)) = C"
    using w1(2,7) C by (simp add: ring_ok_def)
  define w' where "w' = w1\<lparr>heap := (heap w1)(this := (heap w1 this)
                   \<lparr>buffer := (buffer (heap w1 this))
                       [?i := CaptureFrame w1 (last ts) (buffer (heap w1 this) ! ?i)],
                    frameCount := frameCount (heap w1 this) + 1\<rparr>),
                  console := console w1 @
                    (if overflow_detected (heap w1 this) (last ts) then [Warn_buffer_overflow]
                     else []),
                  raf := raf w1 @ [CaptureFrameFunc this]\<rparr>"
  have step: "captureFrame w1 this (last ts) = Inr w'"
    unfolding captureFrame_step [OF w1(2,3) env1] idx w'_def ..
  have "capture_cycles w this (butlast ts @ [last ts]) = Inr w'"
    by (simp add: capture_cycles_append w1(1) step)
  with ts have all: "capture_cycles w this ts = Inr w'"
    by simp
  have rem: "js_rem (frameCount (heap w1 this)) (maxBuffer (heap w1 this)) = Some (int ?i)"
    using Cpos by (simp add: js_rem_nonneg fc w1(7) C zmod_int)
  have count: "frameCount (heap w' this) = int ?N"
    using ts by (cases ts) (simp_all add: w'_def fc)
  have i: "?i < C"
    using Cpos by simp
  have slot_video: "bf_video (buffer (heap w1 this) ! ?i) = video (heap w this)"
    using w1(2,6) i len1 by (simp add: ring_ok_def list_all_length)
  have stamp: "captureTs (buffer (heap w' this) ! ?i) = last ts"
    if "0 < videoWidth (videos w (video (heap w this)))"
       "0 < videoHeight (videos w (video (heap w this)))"
    using that i len1 slot_video by (simp add: w'_def CaptureFrame_def w1(4) Let_def)
  have older: "captureTs (buffer (heap w' this) ! j) < last ts"
    if "sorted_wrt (<) ts" "0 < hd ts" "j < C" "j \<noteq> ?i" for j
  proof -
    from sorted_wrt_hd_le_last [OF that(1) ts] that(2) have "0 < last ts"
      by simp
    with empty have "list_all (\<lambda>f. captureTs f < last ts) (buffer (heap w this))"
      by (simp add: empty_ring_def list_all_iff)
    from capture_cycles_stamps [OF ok env w1(1), of "\<lambda>x. x < last ts", OF this
        sorted_wrt_butlast_less [OF that(1) ts]]
    have "captureTs (buffer (heap w1 this) ! j) < last ts"
      using that(3) len1 by (simp add: list_all_length)
    with that(4) show ?thesis
      by (simp add: w'_def)
  qed
  show ?thesis
  proof (intro exI conjI impI allI)
    show "capture_cycles w this (butlast ts) = Inr w1" by (fact w1(1))
    show "captureFrame w1 this (last ts) = Inr w'" by (fact step)
    show "capture_cycles w this ts = Inr w'" by (fact all)
    show "js_rem (frameCount (heap w1 this)) (maxBuffer (heap w1 this)) = Some (int ?i)"
      by (fact rem)
    show "frameCount (heap w' this) = int ?N" by (fact count)
  next
    assume "0 < videoWidth (videos w (video (heap w this))) \<and>
            0 < videoHeight (videos w (video (heap w this)))"
    then show "captureTs (buffer (heap w' this) ! ?i) = last ts"
      using stamp by simp
  next
    fix j
    assume "sorted_wrt (<) ts \<and> 0 < hd ts" "j < C" "j \<noteq> ?i"
    then show "captureTs (buffer (heap w' this) ! j) < last ts"
      using older by simp
  qed
qed

theorem capture_cycles_latest_slot_witness:
  "map_sum id (\<lambda>w. (frameCount (heap w 0), captureTs (buffer (heap w 0) ! 0),
                     captureTs (buffer (heap w 0) ! 1) < 30))
     (capture_cycles (example_session 2 10) 0 [10, 20, 30]) = Inr (3, 30, True)"
proof -
  have "sorted_wrt (<) [10, 20, 30 :: int]" "0 < hd [10, 20, 30 :: int]"
       "(length [10, 20, 30 :: int] - 1) mod 2 = 0" "last [10, 20, 30 :: int] = 30"
       "length [10, 20, 30 :: int] = 3" "[10, 20, 30 :: int] \<noteq> []"
    by simp_all
  with capture_cycles_latest_slot [of "example_session 2 10" 0 2 "[10, 20, 30]"]
  show ?thesis
    by (auto simp: example_session_ready example_video_def)
qed

subsection \<open>SetMaxBuffer\<close>

text \<open>
  C5. \<open>SetMaxBuffer n\<close> with \<open>n < 2\<close> logs an error and changes nothing else on the page:
  capacity, buffer, \<open>frameCount\<close> and \<open>lastDrawnFrameIndex\<close> are as before. With \<open>n \<ge> 2\<close>
  it logs nothing and reinitialises the ring: \<open>maxBuffer = n\<close>, \<open>n\<close> slots, every slot with
  \<open>captureTs = 0\<close>, \<open>frameCount = 0\<close> and \<open>lastDrawnFrameIndex = -1\<close>.
\<close>

theorem SetMaxBuffer_rejects_or_reinitialises:
  fixes w :: "('t::zero) page"
  shows "(n < 2 \<longrightarrow>
            SetMaxBuffer w this n = w\<lparr>console := console w @ [Error_maxBuffer_at_least_2]\<rparr>) \<and>
         (2 \<le> n \<longrightarrow>
            maxBuffer (heap (SetMaxBuffer w this n) this) = n \<and>
            int (length (buffer (heap (SetMaxBuffer w this n) this))) = n \<and>
            (\<forall>f \<in> set (buffer (heap (SetMaxBuffer w this n) this)). captureTs f = 0) \<and>
            frameCount (heap (SetMaxBuffer w this n) this) = 0 \<and>
            lastDrawnFrameIndex (heap (SetMaxBuffer w this n) this) = - 1 \<and>
            console (SetMaxBuffer w this n) = console w)"
  by (simp add: SetMaxBuffer_def console_log_def BufferFrame_new_def BufferFrame_Resize_def Let_def)

theorem SetMaxBuffer_rejects_or_reinitialises_witness:
  "SetMaxBuffer example_page 0 1 = example_page\<lparr>console := [Error_maxBuffer_at_least_2]\<rparr> \<and>
   maxBuffer (heap (SetMaxBuffer example_page 0 3) 0) = 3 \<and>
   length (buffer (heap (SetMaxBuffer example_page 0 3) 0)) = 3 \<and>
   frameCount (heap (SetMaxBuffer example_page 0 3) 0) = 0 \<and>
   lastDrawnFrameIndex (heap (SetMaxBuffer example_page 0 3) 0) = - 1"
  using SetMaxBuffer_rejects_or_reinitialises [of 1 example_page 0]
        SetMaxBuffer_rejects_or_reinitialises [of 3 example_page 0]
  by (simp add: example_page_def)

subsection \<open>Deactivate\<close>

text \<open>
  C10. \<open>Deactivate\<close> changes the \<open>active\<close> flag (to false), the overlay canvas (to null),
  the resize observer (to null) and the video's \<open>frameSyncObj\<close> link (deleted), and nothing
  else: buffer, \<open>frameCount\<close>, \<open>lastDrawnFrameIndex\<close>, \<open>frameDelayMs\<close> and \<open>maxBuffer\<close> of
  the session, every other session, every other video, the console and the scheduled
  callbacks are as before.
\<close>

theorem Deactivate_changes_only_activation:
  "Deactivate w this =
     w\<lparr>heap := (heap w)(this :=
          (heap w this)\<lparr>active := False, resizeObserver := None, canvas := None\<rparr>),
       videos := (videos w)(video (heap w this) :=
          (videos w (video (heap w this)))\<lparr>frameSyncObj := None\<rparr>)\<rparr> \<and>
   buffer (heap (Deactivate w this) this) = buffer (heap w this) \<and>
   frameCount (heap (Deactivate w this) this) = frameCount (heap w this) \<and>
   lastDrawnFrameIndex (heap (Deactivate w this) this) = lastDrawnFrameIndex (heap w this) \<and>
   frameDelayMs (heap (Deactivate w this) this) = frameDelayMs (heap w this) \<and>
   maxBuffer (heap (Deactivate w this) this) = maxBuffer (heap w this)"
  by (simp add: Deactivate_eq)

subsection \<open>Frame selection\<close>

lemmas run_defs = FrameSync_new_def SetMaxBuffer_def Activate_def createCanvasOverlay_def
     Resize_def BufferFrame_new_def BufferFrame_Resize_def captureFrame_def CaptureFrame_def Let_def


text \<open>The scenario of the specification: capacity 4, captures at 0, 30, 60, 90 and 120
  (the capture at time 0 leaves slot 0 looking empty, the one at 120 overwrites it), then a
  playback cycle at \<open>now = 150\<close> with a delay of 100.\<close>

lemma scenario_nearest:
  "map_sum id (\<lambda>w. (map captureTs (buffer (heap w 0)), findBestFrameToShow (heap w 0) (150 - 100)))
     (example_run 4 100 [0, 30, 60, 90, 120]) = Inr ([120, 30, 60, 90], 2)"
  by (simp add: example_defs host_defs run_defs findBestFrameToShow_def eval_nat_numeral upt_rec)


text \<open>
  C1. \<open>_findBestFrameToShow\<close> returns \<open>-1\<close> when every slot has \<open>captureTs = 0\<close>.
  Otherwise it returns the index \<open>k\<close> of a slot with \<open>captureTs \<noteq> 0\<close> whose distance
  \<open>\<bar>captureTs - targetTs\<bar>\<close> is minimal among the non-empty slots, and every non-empty slot
  before \<open>k\<close> is strictly farther away (ties go to the lowest index). In the scenario
  (captures at 0, 30, 60, 90, 120 into 4 slots, target 50) the ring holds the timestamps
  120, 30, 60, 90 and the selection is slot 2, which holds 60.
\<close>

theorem findBestFrameToShow_nearest:
  fixes s :: "('t::linordered_idom) FrameSync"
  shows "(if \<forall>j < length (buffer s). captureTs (buffer s ! j) = 0
          then findBestFrameToShow s targetTs = - 1
          else (\<exists>k < length (buffer s).
                  findBestFrameToShow s targetTs = int k \<and> captureTs (buffer s ! k) \<noteq> 0 \<and>
                  (\<forall>j < length (buffer s). captureTs (buffer s ! j) \<noteq> 0 \<longrightarrow>
                     \<bar>captureTs (buffer s ! k) - targetTs\<bar> \<le> \<bar>captureTs (buffer s ! j) - targetTs\<bar>) \<and>
                  (\<forall>j < k. captureTs (buffer s ! j) \<noteq> 0 \<longrightarrow>
                     \<bar>captureTs (buffer s ! k) - targetTs\<bar> < \<bar>captureTs (buffer s ! j) - targetTs\<bar>))) \<and>
         map_sum id
           (\<lambda>w. (map captureTs (buffer (heap w 0)), findBestFrameToShow (heap w 0) (150 - 100)))
           (example_run 4 100 [0, 30, 60, 90, 120]) = Inr ([120, 30, 60, 90], 2)"
  using findBestFrameToShow_spec [of s targetTs] scenario_nearest by simp

theorem findBestFrameToShow_nearest_witness:
  "findBestFrameToShow
     (unallocated\<lparr>buffer :=
        map (\<lambda>t. \<lparr>frame = createElement_canvas, bf_video = 0, captureTs = t\<rparr>) [120, 30, 60, 90]\<rparr>)
     50 = 2 \<and>
   findBestFrameToShow
     (unallocated\<lparr>buffer :=
        map (\<lambda>t. \<lparr>frame = createElement_canvas, bf_video = 0, captureTs = t\<rparr>) [0, 0]\<rparr>)
     50 = - 1"
  using findBestFrameToShow_nearest
          [of "unallocated\<lparr>buffer :=
                 map (\<lambda>t. \<lparr>frame = createElement_canvas, bf_video = 0, captureTs = t\<rparr>)
                   [120, 30, 60, 90]\<rparr>" 50]
        findBestFrameToShow_nearest
          [of "unallocated\<lparr>buffer :=
                 map (\<lambda>t. \<lparr>frame = createElement_canvas, bf_video = 0, captureTs = t\<rparr>) [0, 0]\<rparr>" 50]
  by (simp add: findBestFrameToShow_def unallocated_def)


subsection \<open>The overflow diagnostic\<close>

lemma empty_ring_slot:
  fixes s :: "('t::zero) FrameSync"
  shows "empty_ring s \<Longrightarrow> i < length (buffer s) \<Longrightarrow> captureTs (buffer s ! i) = 0"
  by (simp add: empty_ring_def list_all_length)


text \<open>
  C2 as stated does not hold: with capacity 2 and a delay of 10, captures at 0 and 5 leave
  the console empty. The second capture writes slot 1, which was never written before, so
  its \<open>captureTs\<close> is 0 and the overflow test does not fire.
\<close>

theorem second_capture_logs_no_overflow:
  "map_sum id (\<lambda>w. (console w, map captureTs (buffer (heap w 0)), frameCount (heap w 0)))
     (example_run 2 10 [0, 5]) = Inr ([], [0, 5], 2)"
  by (simp add: example_defs host_defs run_defs eval_nat_numeral upt_rec)


text \<open>
  C2, amended. With capacity 2, an empty ring and a delay of 10, for a playing, visible
  video of valid dimensions: the captures at 0 and 5 both succeed, neither logs anything
  (no overflow diagnostic), the second one writes slot 1 (its \<open>captureTs\<close> becomes 5) and
  \<open>frameCount\<close> is 2 afterwards.
\<close>

theorem two_captures_capacity_2:
  fixes w :: "('t::linordered_idom) page"
  assumes ok: "ring_ok (heap w this)" and empty: "empty_ring (heap w this)"
    and cap: "maxBuffer (heap w this) = 2" and delay: "frameDelayMs (heap w this) = 10"
    and env: "active (heap w this)" "\<not> paused (videos w (video (heap w this)))" "\<not> hidden w"
    and dims: "0 < videoWidth (videos w (video (heap w this)))"
              "0 < videoHeight (videos w (video (heap w this)))"
  shows "\<exists>w1 w2. captureFrame w this 0 = Inr w1 \<and> captureFrame w1 this 5 = Inr w2 \<and>
           console w1 = console w \<and> console w2 = console w1 \<and>
           captureTs (buffer (heap w2 this) ! 1) = 5 \<and>
           frameCount (heap w2 this) = 2"
proof -
  let ?s = "heap w this"
  from ok cap have len: "length (buffer ?s) = 2"
    by (simp add: ring_ok_def)
  from empty have fc: "frameCount ?s = 0"
    by (simp add: empty_ring_def)
  have slots: "captureTs (buffer ?s ! 0) = 0" "captureTs (buffer ?s ! 1) = 0"
    using empty_ring_slot [OF empty] len by simp_all
  have vids: "bf_video (buffer ?s ! 0) = video ?s" "bf_video (buffer ?s ! 1) = video ?s"
    using ok len by (simp_all add: ring_ok_def list_all_length)
  define w1 where "w1 = w\<lparr>heap := (heap w)(this := ?s
                   \<lparr>buffer := (buffer ?s)[0 := CaptureFrame w 0 (buffer ?s ! 0)],
                    frameCount := 1\<rparr>),
                  raf := raf w @ [CaptureFrameFunc this]\<rparr>"
  have step1: "captureFrame w this 0 = Inr w1"
    unfolding captureFrame_step [OF ok env]
    by (simp add: w1_def fc cap overflow_detected_def slots)
  have ok1: "ring_ok (heap w1 this)" and env1: "active (heap w1 this)"
    "\<not> paused (videos w1 (video (heap w1 this)))" "\<not> hidden w1"
    using captureFrame_keeps [OF ok env step1] env by simp_all
  let ?s1 = "heap w1 this"
  have slot1: "captureTs (buffer ?s1 ! 1) = 0" "bf_video (buffer ?s1 ! 1) = video ?s"
    using len slots vids by (simp_all add: w1_def)
  define w2 where "w2 = w1\<lparr>heap := (heap w1)(this := ?s1
                   \<lparr>buffer := (buffer ?s1)[1 := CaptureFrame w1 5 (buffer ?s1 ! 1)],
                    frameCount := 2\<rparr>),
                  raf := raf w1 @ [CaptureFrameFunc this]\<rparr>"
  have "frameCount ?s1 = 1" "maxBuffer ?s1 = 2"
    by (simp_all add: w1_def cap)
  with slot1 have step2: "captureFrame w1 this 5 = Inr w2"
    unfolding captureFrame_step [OF ok1 env1]
    by (simp add: w2_def overflow_detected_def)
  have "length (buffer ?s1) = 2" "videos w1 = videos w"
    using len by (simp_all add: w1_def)
  with dims slot1(2) have "captureTs (buffer (heap w2 this) ! 1) = 5"
    by (simp add: w2_def CaptureFrame_def Let_def)
  moreover have "console w1 = console w" "console w2 = console w1" "frameCount (heap w2 this) = 2"
    by (simp_all add: w1_def w2_def)
  ultimately show ?thesis
    using step1 step2 by blast
qed

theorem two_captures_capacity_2_witness:
  "map_sum id (\<lambda>w. (console w, captureTs (buffer (heap w 0) ! 1), frameCount (heap w 0)))
     (capture_cycles (example_session 2 10) 0 [0, 5]) = Inr ([], 5, 2)"
  using two_captures_capacity_2 [of "example_session 2 10" 0]
  by (auto simp: example_session_ready example_video_def)

subsection \<open>Capture without dimensions\<close>

text \<open>
  C8. \<open>CaptureFrame\<close> leaves a slot exactly as it was (bitmap and \<open>captureTs\<close>) when the
  video reports a width or a height of 0. A capture cycle that passes its guard (session
  active, video playing, document visible) then still succeeds and adds 1 to \<open>frameCount\<close>,
  with the whole buffer unchanged: the write cursor moves on although nothing was written.
\<close>

theorem capture_without_dimensions:
  fixes w :: "('t::linordered_idom) page"
  shows "(videoWidth (videos w (bf_video bf)) = 0 \<or> videoHeight (videos w (bf_video bf)) = 0 \<longrightarrow>
            CaptureFrame w now bf = bf) \<and>
         (ring_ok (heap w this) \<and> active (heap w this) \<and>
          \<not> paused (videos w (video (heap w this))) \<and> \<not> hidden w \<and>
          (videoWidth (videos w (video (heap w this))) = 0 \<or>
           videoHeight (videos w (video (heap w this))) = 0) \<longrightarrow>
            (\<exists>w'. captureFrame w this now = Inr w' \<and>
                  buffer (heap w' this) = buffer (heap w this) \<and>
                  frameCount (heap w' this) = frameCount (heap w this) + 1))"
proof (intro conjI impI)
  assume "videoWidth (videos w (bf_video bf)) = 0 \<or> videoHeight (videos w (bf_video bf)) = 0"
  then show "CaptureFrame w now bf = bf"
    by (auto simp: CaptureFrame_def)
next
  let ?s = "heap w this"
  let ?i = "nat (frameCount ?s mod maxBuffer ?s)"
  assume a: "ring_ok ?s \<and> active ?s \<and> \<not> paused (videos w (video ?s)) \<and> \<not> hidden w \<and>
             (videoWidth (videos w (video ?s)) = 0 \<or> videoHeight (videos w (video ?s)) = 0)"
  then have ok: "ring_ok ?s" and env: "active ?s" "\<not> paused (videos w (video ?s))" "\<not> hidden w"
    by simp_all
  have "bf_video (buffer ?s ! ?i) = video ?s"
    using ok ring_ok_slot [OF ok] by (simp add: ring_ok_def list_all_length)
  with a have "CaptureFrame w now (buffer ?s ! ?i) = buffer ?s ! ?i"
    by (auto simp: CaptureFrame_def)
  then show "\<exists>w'. captureFrame w this now = Inr w' \<and> buffer (heap w' this) = buffer ?s \<and>
                  frameCount (heap w' this) = frameCount ?s + 1"
    unfolding captureFrame_step [OF ok env] by simp
qed

theorem capture_without_dimensions_witness:
  "CaptureFrame example_no_width 16
     \<lparr>frame = createElement_canvas, bf_video = 0, captureTs = 0\<rparr> =
     \<lparr>frame = createElement_canvas, bf_video = 0, captureTs = 0\<rparr> \<and>
   map_sum id (\<lambda>w'. (buffer (heap w' 0) = buffer (heap example_no_width 0), frameCount (heap w' 0)))
     (captureFrame example_no_width 0 16) = Inr (True, 1)"
  using capture_without_dimensions
          [of example_no_width "\<lparr>frame = createElement_canvas, bf_video = 0, captureTs = 0\<rparr>" 16 0]
        example_session_ready [of 2 10]
  by (auto simp: example_no_width_def example_video_def empty_ring_def)

subsection \<open>The playback loop\<close>

lemma findBestFrameToShow_range:
  fixes s :: "('t::linordered_idom) FrameSync"
  shows "findBestFrameToShow s t = - 1 \<or>
         (\<exists>k < length (buffer s). findBestFrameToShow s t = int k)"
  using findBestFrameToShow_spec [of s t] by (auto split: if_splits)

lemma drawFrame_ok:
  fixes w :: "('t::linordered_idom) page"
  shows "\<exists>w'. drawFrame w this now fails = Inr w' \<and>
           videos w' = videos w \<and> videoList w' = videoList w \<and> hidden w' = hidden w \<and>
           next_ref w' = next_ref w \<and> currentFrameDelay w' = currentFrameDelay w \<and>
           isPaused w' = isPaused w \<and>
           (\<forall>r. r \<noteq> this \<longrightarrow> heap w' r = heap w r) \<and>
           buffer (heap w' this) = buffer (heap w this) \<and>
           video (heap w' this) = video (heap w this) \<and>
           maxBuffer (heap w' this) = maxBuffer (heap w this) \<and>
           frameDelayMs (heap w' this) = frameDelayMs (heap w this) \<and>
           frameCount (heap w' this) = frameCount (heap w this) \<and>
           active (heap w' this) = active (heap w this) \<and>
           (canvas (heap w' this) = None \<longleftrightarrow> canvas (heap w this) = None) \<and>
           (lastDrawnFrameIndex (heap w' this) \<noteq> lastDrawnFrameIndex (heap w this) \<longrightarrow>
              active (heap w this) \<and> \<not> paused (videos w (video (heap w this))) \<and>
              lastDrawnFrameIndex (heap w' this) =
                findBestFrameToShow (heap w this) (now - frameDelayMs (heap w this)))"
proof -
  let ?s = "heap w this"
  let ?b = "findBestFrameToShow ?s (now - frameDelayMs ?s)"
  from findBestFrameToShow_range [of ?s "now - frameDelayMs ?s"]
  consider "?b = - 1" | k where "k < length (buffer ?s)" "?b = int k"
    by blast
  then show ?thesis
  proof cases
    case 1
    then show ?thesis
      by (simp add: drawFrame_def Let_def requestAnimationFrame_def)
  next
    case 2
    then have "js_index (buffer ?s) (Some ?b) = Some (k, buffer ?s ! k)"
      by (simp add: js_index_def)
    then show ?thesis
      by (simp add: drawFrame_def Let_def requestAnimationFrame_def console_log_def
          split: option.split sum.split)
  qed
qed

lemmas run_defs2 = run_defs drawFrame_def drawImage_canvas_def findBestFrameToShow_def Deactivate_def

subsection \<open>Deactivation followed by activation\<close>

text \<open>
  C3 as stated does not hold: on the example session after one capture (at 5) and one
  playback cycle (at 20, which draws slot 0), \<open>Deactivate\<close> followed by \<open>Activate\<close> leaves
  \<open>frameCount = 1\<close>, \<open>lastDrawnFrameIndex = 0\<close> and the timestamps 5 and 0 in the ring.
\<close>

theorem reactivated_session_keeps_ring:
  "map_sum id
     (\<lambda>w. (frameCount (heap w 0), lastDrawnFrameIndex (heap w 0), map captureTs (buffer (heap w 0))))
     (case example_run 2 10 [5] of
        Inl e \<Rightarrow> Inl e
      | Inr w \<Rightarrow> (case drawFrame w 0 20 False of
                    Inl e \<Rightarrow> Inl e
                  | Inr w1 \<Rightarrow> Activate (Deactivate w1 0) 0)) = Inr (1, 0, [5, 0])"
  by (simp add: example_defs host_defs run_defs2 eval_nat_numeral upt_rec)

lemma Deactivate_fields [simp]:
  "videoList (Deactivate w this) = videoList w" "hidden (Deactivate w this) = hidden w"
  "next_ref (Deactivate w this) = next_ref w" "console (Deactivate w this) = console w"
  "raf (Deactivate w this) = raf w" "currentFrameDelay (Deactivate w this) = currentFrameDelay w"
  "isPaused (Deactivate w this) = isPaused w"
  "frameSyncObj (videos (Deactivate w this) (video (heap w this))) = None"
  "r \<noteq> this \<Longrightarrow> heap (Deactivate w this) r = heap w r"
  "heap (Deactivate w this) this =
     (heap w this)\<lparr>active := False, resizeObserver := None, canvas := None\<rparr>"
  by (simp_all add: Deactivate_eq)

text \<open>
  C3, amended. \<open>Deactivate\<close> followed by \<open>Activate\<close> on the same session succeeds and keeps
  \<open>frameCount\<close>, \<open>lastDrawnFrameIndex\<close> and every \<open>captureTs\<close>. An empty ring comes from the
  main logic: after \<open>Deactivate\<close> has deleted the video's link, \<open>updateSyncForVideos\<close>
  (with a positive delay, not paused) constructs a new session for the video and activates
  that one; the new session has capacity 60, \<open>frameCount = 0\<close>, \<open>lastDrawnFrameIndex = -1\<close>
  and only empty slots, and the old session stays as \<open>Deactivate\<close> left it.
\<close>

theorem reactivation_and_recreation:
  fixes w :: "('t::linordered_idom) page"
  assumes len: "int (length (buffer (heap w this))) = maxBuffer (heap w this)"
    and alloc: "this < next_ref w"
    and cfg: "0 < currentFrameDelay w" "\<not> isPaused w"
  shows "(\<exists>w'. Activate (Deactivate w this) this = Inr w' \<and> active (heap w' this) \<and>
               frameCount (heap w' this) = frameCount (heap w this) \<and>
               lastDrawnFrameIndex (heap w' this) = lastDrawnFrameIndex (heap w this) \<and>
               map captureTs (buffer (heap w' this)) = map captureTs (buffer (heap w this))) \<and>
         (\<exists>w'. updateSyncForVideo (Deactivate w this) (video (heap w this)) = Inr w' \<and>
               frameSyncObj (videos w' (video (heap w this))) = Some (next_ref w) \<and>
               next_ref w \<noteq> this \<and>
               active (heap w' (next_ref w)) \<and>
               maxBuffer (heap w' (next_ref w)) = 60 \<and>
               frameCount (heap w' (next_ref w)) = 0 \<and>
               lastDrawnFrameIndex (heap w' (next_ref w)) = - 1 \<and>
               list_all (\<lambda>f. captureTs f = 0) (buffer (heap w' (next_ref w))) \<and>
               heap w' this = heap (Deactivate w this) this)"
proof
  let ?w0 = "Deactivate w this"
  have "int (length (buffer (heap ?w0 this))) = maxBuffer (heap ?w0 this)"
    using len by simp
  from Activate_ok [OF this] obtain w' where
    "Activate ?w0 this = Inr w'" "same_ring (heap ?w0 this) (heap w' this)" "active (heap w' this)"
    by (elim exE conjE)
  then show "\<exists>w'. Activate ?w0 this = Inr w' \<and> active (heap w' this) \<and>
               frameCount (heap w' this) = frameCount (heap w this) \<and>
               lastDrawnFrameIndex (heap w' this) = lastDrawnFrameIndex (heap w this) \<and>
               map captureTs (buffer (heap w' this)) = map captureTs (buffer (heap w this))"
    by (simp add: same_ring_def)
next
  let ?w0 = "Deactivate w this"
  let ?v = "video (heap w this)"
  let ?r = "next_ref w"
  have none: "frameSyncObj (videos ?w0 ?v) = None"
    by simp
  from new_session_ready [OF none, of 60 "currentFrameDelay w"] obtain w1 w2 where
    *: "FrameSync_new ?w0 ?v 60 (currentFrameDelay w) = (?r, w1)" "Activate w1 ?r = Inr w2"
       "empty_ring (heap w2 ?r)" "active (heap w2 ?r)" "maxBuffer (heap w2 ?r) = 60"
       "lastDrawnFrameIndex (heap w2 ?r) = - 1"
       "\<forall>r. r \<noteq> ?r \<longrightarrow> heap w2 r = heap ?w0 r"
       "videos w2 = (videos ?w0)(?v := (videos ?w0 ?v)\<lparr>frameSyncObj := Some ?r\<rparr>)"
    by auto
  from alloc have "?r \<noteq> this" by simp
  with * cfg none show "\<exists>w'. updateSyncForVideo ?w0 ?v = Inr w' \<and>
               frameSyncObj (videos w' ?v) = Some ?r \<and> ?r \<noteq> this \<and>
               active (heap w' ?r) \<and> maxBuffer (heap w' ?r) = 60 \<and>
               frameCount (heap w' ?r) = 0 \<and> lastDrawnFrameIndex (heap w' ?r) = - 1 \<and>
               list_all (\<lambda>f. captureTs f = 0) (buffer (heap w' ?r)) \<and>
               heap w' this = heap ?w0 this"
    by (simp add: updateSyncForVideo_def empty_ring_def)
qed

lemma example_captured_facts:
  "int (length (buffer (heap example_captured 0))) = maxBuffer (heap example_captured 0)"
  "frameCount (heap example_captured 0) = 1" "next_ref example_captured = 1"
  "currentFrameDelay example_captured = 10" "\<not> isPaused example_captured"
  "video (heap example_captured 0) = 0" "active (heap example_captured 0)"
  "frameSyncObj (videos example_captured 0) = Some 0" "videoList example_captured = [0]"
  by (simp_all add: example_captured_def example_session_def example_defs host_defs run_defs
      eval_nat_numeral upt_rec)

theorem reactivation_and_recreation_witness:
  "map_sum id (\<lambda>w. frameCount (heap w 0)) (Activate (Deactivate example_captured 0) 0) = Inr 1 \<and>
   map_sum id (\<lambda>w. (frameSyncObj (videos w 0), frameCount (heap w 1), frameCount (heap w 0)))
     (updateSyncForVideo (Deactivate example_captured 0) 0) = Inr (Some 1, 0, 1)"
  using reactivation_and_recreation [of example_captured 0]
  by (auto simp: example_captured_facts)

subsection \<open>Changing the delay\<close>

lemma updateSyncForVideo_other:
  fixes w :: "('t::linordered_idom) page"
  assumes cfg: "0 < currentFrameDelay w" "\<not> isPaused w" and alloc: "this < next_ref w"
  shows "\<exists>w1. updateSyncForVideo w v = Inr w1 \<and>
           currentFrameDelay w1 = currentFrameDelay w \<and> isPaused w1 = isPaused w \<and>
           this < next_ref w1 \<and>
           heap w1 this =
             (if frameSyncObj (videos w v) = Some this
              then (heap w this)\<lparr>frameDelayMs := currentFrameDelay w\<rparr> else heap w this) \<and>
           (\<forall>u. frameSyncObj (videos w1 u) = Some this \<longleftrightarrow> frameSyncObj (videos w u) = Some this)"
proof (cases "frameSyncObj (videos w v)")
  case None
  let ?r = "next_ref w"
  from new_session_ready [OF None, of 60 "currentFrameDelay w"] obtain w1 w2 where
    *: "FrameSync_new w v 60 (currentFrameDelay w) = (?r, w1)" "Activate w1 ?r = Inr w2"
       "\<forall>r. r \<noteq> ?r \<longrightarrow> heap w2 r = heap w r"
       "videos w2 = (videos w)(v := (videos w v)\<lparr>frameSyncObj := Some ?r\<rparr>)"
       "next_ref w2 = Suc ?r" "currentFrameDelay w2 = currentFrameDelay w"
       "isPaused w2 = isPaused w"
    by auto
  from alloc have "?r \<noteq> this" by simp
  with * cfg None alloc show ?thesis
    by (auto simp: updateSyncForVideo_def)
next
  case (Some obj)
  with cfg alloc show ?thesis
    by (auto simp: updateSyncForVideo_def)
qed

lemma forEach_video_delay:
  fixes w :: "('t::linordered_idom) page"
  assumes "0 < currentFrameDelay w" "\<not> isPaused w" "this < next_ref w"
  shows "\<exists>w'. forEach_video w vs = Inr w' \<and>
           (heap w' this = heap w this \<or>
            heap w' this = (heap w this)\<lparr>frameDelayMs := currentFrameDelay w\<rparr>) \<and>
           ((\<exists>v \<in> set vs. frameSyncObj (videos w v) = Some this) \<longrightarrow>
              heap w' this = (heap w this)\<lparr>frameDelayMs := currentFrameDelay w\<rparr>)"
  using assms
proof (induction vs arbitrary: w)
  case Nil
  then show ?case by simp
next
  case (Cons v vs)
  from updateSyncForVideo_other [OF Cons.prems, of v] obtain w1 where
    w1: "updateSyncForVideo w v = Inr w1" "currentFrameDelay w1 = currentFrameDelay w"
        "isPaused w1 = isPaused w" "this < next_ref w1"
        "heap w1 this =
           (if frameSyncObj (videos w v) = Some this
            then (heap w this)\<lparr>frameDelayMs := currentFrameDelay w\<rparr> else heap w this)"
        "\<forall>u. frameSyncObj (videos w1 u) = Some this \<longleftrightarrow> frameSyncObj (videos w u) = Some this"
    by (elim exE conjE)
  from Cons.prems w1 have "0 < currentFrameDelay w1" "\<not> isPaused w1"
    by simp_all
  from Cons.IH [OF this w1(4)] obtain w' where
    w': "forEach_video w1 vs = Inr w'"
        "heap w' this = heap w1 this \<or>
         heap w' this = (heap w1 this)\<lparr>frameDelayMs := currentFrameDelay w1\<rparr>"
        "(\<exists>v \<in> set vs. frameSyncObj (videos w1 v) = Some this) \<longrightarrow>
           heap w' this = (heap w1 this)\<lparr>frameDelayMs := currentFrameDelay w1\<rparr>"
    by (elim exE conjE)
  show ?case
  proof (cases "frameSyncObj (videos w v) = Some this")
    case True
    with w1 w' show ?thesis by auto
  next
    case False
    with w1 w' show ?thesis by auto
  qed
qed

subsection \<open>Errors\<close>

lemma captureFrame_ok:
  fixes w :: "('t::linordered_idom) page"
  assumes "ring_ok (heap w this)"
  shows "\<exists>w'. captureFrame w this now = Inr w' \<and> ring_ok (heap w' this) \<and>
           (\<forall>r. r \<noteq> this \<longrightarrow> heap w' r = heap w r)"
proof (cases "active (heap w this) \<and> \<not> paused (videos w (video (heap w this))) \<and> \<not> hidden w")
  case True
  then have env: "active (heap w this)" "\<not> paused (videos w (video (heap w this)))" "\<not> hidden w"
    by simp_all
  from captureFrame_step [OF assms env, of now] obtain w' where w': "captureFrame w this now = Inr w'"
    by blast
  from captureFrame_keeps(1) [OF assms env w'] w' show ?thesis
    unfolding captureFrame_step [OF assms env] by auto
next
  case False
  with assms show ?thesis
    by (auto simp: captureFrame_def requestAnimationFrame_def)
qed

text \<open>With a ring of valid capacity no method of a session throws, and each leaves the ring
  valid.\<close>

lemma ring_ok_no_throw:
  fixes w :: "('t::linordered_idom) page"
  assumes "ring_ok (heap w this)"
  shows "\<exists>w'. captureFrame w this now = Inr w' \<and> ring_ok (heap w' this)"
    and "\<exists>w'. drawFrame w this now fails = Inr w' \<and> ring_ok (heap w' this)"
    and "\<exists>w'. Resize w this = Inr w' \<and> ring_ok (heap w' this)"
    and "\<exists>w'. Activate w this = Inr w' \<and> ring_ok (heap w' this)"
    and "ring_ok (heap (SetMaxBuffer w this n) this)"
    and "ring_ok (heap (Deactivate w this) this)"
proof -
  from assms have len: "int (length (buffer (heap w this))) = maxBuffer (heap w this)"
    by (simp add: ring_ok_def)
  show "\<exists>w'. captureFrame w this now = Inr w' \<and> ring_ok (heap w' this)"
    using captureFrame_ok [OF assms, of now] by blast
  show "\<exists>w'. drawFrame w this now fails = Inr w' \<and> ring_ok (heap w' this)"
    using drawFrame_ok [of w this now fails] assms by (auto simp: ring_ok_def)
  show "\<exists>w'. Resize w this = Inr w' \<and> ring_ok (heap w' this)"
    using Resize_ok [OF len] same_ring_ok [OF _ assms] by blast
  show "\<exists>w'. Activate w this = Inr w' \<and> ring_ok (heap w' this)"
    using Activate_ok [OF len] same_ring_ok [OF _ assms] by blast
  show "ring_ok (heap (SetMaxBuffer w this n) this)"
    using assms by (simp add: SetMaxBuffer_def console_log_def ring_ok_def list_all_iff)
  show "ring_ok (heap (Deactivate w this) this)"
    using assms by (simp add: ring_ok_def)
qed

text \<open>The main logic constructs with capacity 60 only, and never throws.\<close>

lemma updateSyncForVideo_ok:
  fixes w :: "('t::linordered_idom) page"
  shows "\<exists>w'. updateSyncForVideo w v = Inr w'"
proof (cases "frameSyncObj (videos w v)")
  case None
  from new_session_ready [OF None, of 60 "currentFrameDelay w"] None show ?thesis
    by (auto simp: updateSyncForVideo_def)
next
  case (Some obj)
  then show ?thesis
    by (simp add: updateSyncForVideo_def)
qed

lemma updateSyncForVideos_ok:
  fixes w :: "('t::linordered_idom) page"
  shows "\<exists>w'. updateSyncForVideos w = Inr w'"
proof -
  have "\<exists>w'. forEach_video w vs = Inr w'" for vs
  proof (induction vs arbitrary: w)
    case Nil
    show ?case by simp
  next
    case (Cons v vs)
    from updateSyncForVideo_ok [of w v] obtain w1 where "updateSyncForVideo w v = Inr w1"
      by blast
    with Cons.IH [of w1] show ?case by simp
  qed
  then show ?thesis
    by (simp add: updateSyncForVideos_def)
qed

text \<open>
  Outside the script: a session constructed directly with capacity 1 logs the error of
  \<open>SetMaxBuffer\<close> and keeps the constructor's initial \<open>maxBuffer = 0\<close> and empty buffer;
  once activated, its first capture cycle throws a \<open>TypeError\<close> (\<open>frameCount % 0\<close> is \<open>NaN\<close>
  and \<open>buffer[NaN]\<close> is undefined). The script constructs with capacity 60 only.
\<close>

lemma direct_construction_with_capacity_1:
  "map_sum id (\<lambda>w. (console w, maxBuffer (heap w 0), length (buffer (heap w 0)), active (heap w 0)))
     (example_run 1 10 []) = Inr ([Error_maxBuffer_at_least_2], 0, 0, True) \<and>
   example_run 1 10 [16] = Inl TypeError"
  by (simp add: example_defs host_defs run_defs eval_nat_numeral upt_rec)

section \<open>The script as a whole\<close>

lemma keeps_inv:
  assumes k: "keeps r w w'" and r: "r < next_ref w" and inv: "script_inv w"
  shows "script_inv w'"
proof -
  have a: "q < next_ref w' \<and> video (heap w' q) = v \<and> active (heap w' q)"
    if "frameSyncObj (videos w' v) = Some q" for v q
    using that k r inv by (cases "q = r") (auto simp: keeps_def script_inv_def)
  have b: "ring_ok (heap w' q)" if "q < next_ref w'" for q
    using that k r inv by (cases "q = r") (auto simp: keeps_def script_inv_def)
  have c: "frameSyncObj (videos w' (video (heap w' q))) = Some q"
    if "q < next_ref w'" "active (heap w' q)" for q
    using that k r inv by (cases "q = r") (auto simp: keeps_def script_inv_def)
  have d: "callback_ref cb < next_ref w'" if "cb \<in> set (raf w')" for cb
    using that k r inv by (auto simp: keeps_def script_inv_def)
  from a b c d show ?thesis
    unfolding script_inv_def by blast
qed

lemma captureFrame_keeps_page:
  fixes w :: "('t::linordered_idom) page"
  assumes "ring_ok (heap w r)"
  shows "\<exists>w'. captureFrame w r now = Inr w' \<and> keeps r w w'"
proof (cases "active (heap w r) \<and> \<not> paused (videos w (video (heap w r))) \<and> \<not> hidden w")
  case True
  then have env: "active (heap w r)" "\<not> paused (videos w (video (heap w r)))" "\<not> hidden w"
    by simp_all
  from captureFrame_step [OF assms env, of now] obtain w' where w': "captureFrame w r now = Inr w'"
    by blast
  note k = captureFrame_keeps [OF assms env w']
  from w' have "(\<forall>r'. r' \<noteq> r \<longrightarrow> heap w' r' = heap w r') \<and> next_ref w' = next_ref w \<and>
                raf w' = raf w @ [CaptureFrameFunc r]"
    unfolding captureFrame_step [OF assms env] by auto
  with k env w' show ?thesis
    by (auto simp: keeps_def callback_ref_def)
next
  case False
  with assms show ?thesis
    by (auto simp: captureFrame_def requestAnimationFrame_def keeps_def callback_ref_def)
qed

lemma drawFrame_raf:
  fixes w :: "('t::linordered_idom) page"
  shows "drawFrame w r now fails = Inr w' \<Longrightarrow> raf w' = raf w @ [DrawFrameFunc r]"
  by (auto simp: drawFrame_def Let_def requestAnimationFrame_def console_log_def
      split: if_splits option.splits sum.splits prod.splits)

lemma drawFrame_keeps_page:
  fixes w :: "('t::linordered_idom) page"
  assumes "ring_ok (heap w r)"
  shows "\<exists>w'. drawFrame w r now fails = Inr w' \<and> keeps r w w'"
proof -
  from drawFrame_ok [of w r now fails] obtain w' where
    w': "drawFrame w r now fails = Inr w'" "videos w' = videos w" "next_ref w' = next_ref w"
        "\<forall>q. q \<noteq> r \<longrightarrow> heap w' q = heap w q" "buffer (heap w' r) = buffer (heap w r)"
        "video (heap w' r) = video (heap w r)" "maxBuffer (heap w' r) = maxBuffer (heap w r)"
        "frameCount (heap w' r) = frameCount (heap w r)" "active (heap w' r) = active (heap w r)"
    by (elim exE conjE)
  with assms drawFrame_raf [OF w'(1)] show ?thesis
    by (auto simp: keeps_def ring_ok_def callback_ref_def)
qed

lemma Resize_keeps_page:
  assumes "ring_ok (heap w r)"
  shows "\<exists>w'. Resize w r = Inr w' \<and> keeps r w w'"
proof -
  from assms have "int (length (buffer (heap w r))) = maxBuffer (heap w r)"
    by (simp add: ring_ok_def)
  from Resize_ok [OF this] obtain w' where
    w': "Resize w r = Inr w'" "same_env w w'" "raf w' = raf w"
        "\<forall>q. q \<noteq> r \<longrightarrow> heap w' q = heap w q" "same_ring (heap w r) (heap w' r)"
        "active (heap w' r) = active (heap w r)"
    by (elim exE conjE)
  with same_ring_ok [OF w'(5) assms] show ?thesis
    by (auto simp: keeps_def same_env_def same_ring_def)
qed

lemma run_callbacks_inv:
  fixes w :: "('t::linordered_idom) page"
  assumes "script_inv w" "\<forall>cb \<in> set cbs. callback_ref cb < next_ref w"
  shows "\<exists>w'. run_callbacks w cbs now fails = Inr w' \<and> script_inv w'"
  using assms
proof (induction cbs arbitrary: w)
  case Nil
  then show ?case by simp
next
  case (Cons cb rest)
  let ?r = "callback_ref cb"
  from Cons.prems have r: "?r < next_ref w" and ok: "ring_ok (heap w ?r)"
    by (simp_all add: script_inv_def)
  have "\<exists>w1. (case cb of CaptureFrameFunc r \<Rightarrow> captureFrame w r now
                | DrawFrameFunc r \<Rightarrow> drawFrame w r now (fails r)) = Inr w1 \<and> keeps ?r w w1"
    using captureFrame_keeps_page [OF ok, of now] drawFrame_keeps_page [OF ok, of now "fails ?r"]
    by (cases cb) (simp_all add: callback_ref_def)
  then obtain w1 where
    w1: "(case cb of CaptureFrameFunc r \<Rightarrow> captureFrame w r now
          | DrawFrameFunc r \<Rightarrow> drawFrame w r now (fails r)) = Inr w1" "keeps ?r w w1"
    by blast
  from keeps_inv [OF w1(2) r Cons.prems(1)] have inv1: "script_inv w1" .
  from w1(2) Cons.prems(2) have "\<forall>c \<in> set rest. callback_ref c < next_ref w1"
    by (simp add: keeps_def)
  from Cons.IH [OF inv1 this] w1(1) show ?case
    by simp
qed

lemma Activate_raf:
  "Activate w r = Inr w' \<Longrightarrow> \<forall>cb \<in> set (raf w'). cb \<in> set (raf w) \<or> callback_ref cb = r"
  by (auto simp: Activate_def createCanvasOverlay_def Resize_def Let_def requestAnimationFrame_def
      callback_ref_def split: if_splits option.splits sum.splits)

lemma script_invD:
  assumes "script_inv w"
  shows "frameSyncObj (videos w v) = Some r \<Longrightarrow> r < next_ref w"
    and "frameSyncObj (videos w v) = Some r \<Longrightarrow> video (heap w r) = v"
    and "frameSyncObj (videos w v) = Some r \<Longrightarrow> active (heap w r)"
    and "r < next_ref w \<Longrightarrow> ring_ok (heap w r)"
    and "r < next_ref w \<Longrightarrow> active (heap w r) \<Longrightarrow>
           frameSyncObj (videos w (video (heap w r))) = Some r"
    and "cb \<in> set (raf w) \<Longrightarrow> callback_ref cb < next_ref w"
  using assms unfolding script_inv_def by blast+

lemma script_invI:
  assumes "\<And>v r. frameSyncObj (videos w v) = Some r \<Longrightarrow>
             r < next_ref w \<and> video (heap w r) = v \<and> active (heap w r)"
    and "\<And>r. r < next_ref w \<Longrightarrow> ring_ok (heap w r)"
    and "\<And>r. r < next_ref w \<Longrightarrow> active (heap w r) \<Longrightarrow>
             frameSyncObj (videos w (video (heap w r))) = Some r"
    and "\<And>cb. cb \<in> set (raf w) \<Longrightarrow> callback_ref cb < next_ref w"
  shows "script_inv w"
  unfolding script_inv_def using assms by blast

lemma new_session_inv:
  fixes w :: "('t::linordered_idom) page"
  assumes inv: "script_inv w" and none: "frameSyncObj (videos w v) = None"
    and new: "FrameSync_new w v n d = (next_ref w, w1)" "Activate w1 (next_ref w) = Inr w2"
    and ok: "ring_ok (heap w2 (next_ref w))" "active (heap w2 (next_ref w))"
            "video (heap w2 (next_ref w)) = v"
    and rest: "\<forall>q. q \<noteq> next_ref w \<longrightarrow> heap w2 q = heap w q"
    and vids: "videos w2 = (videos w)(v := (videos w v)\<lparr>frameSyncObj := Some (next_ref w)\<rparr>)"
    and nxt: "next_ref w2 = Suc (next_ref w)"
    and raf: "\<forall>cb \<in> set (raf w2). cb \<in> set (raf w) \<or> callback_ref cb = next_ref w"
  shows "script_inv w2"
proof (rule script_invI)
  fix u q assume l: "frameSyncObj (videos w2 u) = Some q"
  show "q < next_ref w2 \<and> video (heap w2 q) = u \<and> active (heap w2 q)"
  proof (cases "u = v")
    case True
    with l vids have "q = next_ref w" by simp
    with True ok nxt show ?thesis by simp
  next
    case False
    with l vids have l0: "frameSyncObj (videos w u) = Some q" by simp
    from script_invD(1-3) [OF inv l0] have "q < next_ref w" "video (heap w q) = u" "active (heap w q)" .
    moreover from this rest have "heap w2 q = heap w q" by simp
    ultimately show ?thesis using nxt by simp
  qed
next
  fix q assume q: "q < next_ref w2"
  show "ring_ok (heap w2 q)"
  proof (cases "q = next_ref w")
    case True
    with ok show ?thesis by simp
  next
    case False
    with q nxt have "q < next_ref w" by simp
    from script_invD(4) [OF inv this] False rest show ?thesis by simp
  qed
next
  fix q assume q: "q < next_ref w2" "active (heap w2 q)"
  show "frameSyncObj (videos w2 (video (heap w2 q))) = Some q"
  proof (cases "q = next_ref w")
    case True
    with ok vids show ?thesis by simp
  next
    case False
    with q nxt rest have "q < next_ref w" "active (heap w q)" and same: "heap w2 q = heap w q"
      by simp_all
    from script_invD(5) [OF inv this(1,2)] have l: "frameSyncObj (videos w (video (heap w q))) = Some q" .
    with none have "video (heap w q) \<noteq> v" by auto
    with l same vids show ?thesis by simp
  qed
next
  fix cb assume "cb \<in> set (raf w2)"
  with raf have "cb \<in> set (raf w) \<or> callback_ref cb = next_ref w" by blast
  then show "callback_ref cb < next_ref w2"
  proof
    assume "cb \<in> set (raf w)"
    from script_invD(6) [OF inv this] nxt show ?thesis by simp
  next
    assume "callback_ref cb = next_ref w"
    with nxt show ?thesis by simp
  qed
qed

lemma Deactivate_inv:
  assumes inv: "script_inv w" and l: "frameSyncObj (videos w v) = Some obj"
  shows "script_inv (Deactivate w obj)"
proof (rule script_invI)
  let ?w' = "Deactivate w obj"
  from script_invD(1,2) [OF inv l] have obj: "obj < next_ref w" "video (heap w obj) = v" .
  fix u q assume lu: "frameSyncObj (videos ?w' u) = Some q"
  have "u \<noteq> v"
  proof
    assume "u = v"
    with obj have "frameSyncObj (videos ?w' u) = None" by (simp add: Deactivate_eq)
    with lu show False by simp
  qed
  with lu obj have u: "u \<noteq> v" "frameSyncObj (videos w u) = Some q"
    by (simp_all add: Deactivate_eq)
  from script_invD(1-3) [OF inv u(2)] have q: "q < next_ref w" "video (heap w q) = u" "active (heap w q)" .
  with u obj have "q \<noteq> obj" by auto
  with q show "q < next_ref ?w' \<and> video (heap ?w' q) = u \<and> active (heap ?w' q)"
    by simp
next
  let ?w' = "Deactivate w obj"
  fix q assume "q < next_ref ?w'"
  then have "ring_ok (heap w q)"
    using script_invD(4) [OF inv] by simp
  then show "ring_ok (heap ?w' q)"
    by (cases "q = obj") (simp_all add: ring_ok_def)
next
  let ?w' = "Deactivate w obj"
  from script_invD(1,2) [OF inv l] have obj: "obj < next_ref w" "video (heap w obj) = v" .
  fix q assume q: "q < next_ref ?w'" "active (heap ?w' q)"
  then have ne: "q \<noteq> obj" by auto
  with q have "q < next_ref w" "active (heap w q)" by simp_all
  from script_invD(5) [OF inv this] have lq: "frameSyncObj (videos w (video (heap w q))) = Some q" .
  with l ne have "video (heap w q) \<noteq> v" by auto
  with lq ne obj show "frameSyncObj (videos ?w' (video (heap ?w' q))) = Some q"
    by (simp add: Deactivate_eq)
next
  fix cb assume "cb \<in> set (raf (Deactivate w obj))"
  then show "callback_ref cb < next_ref (Deactivate w obj)"
    using script_invD(6) [OF inv] by simp
qed

lemma updateSyncForVideo_inv:
  fixes w :: "('t::linordered_idom) page"
  assumes inv: "script_inv w"
  shows "\<exists>w'. updateSyncForVideo w v = Inr w' \<and> script_inv w'"
proof (cases "frameSyncObj (videos w v)")
  case None
  show ?thesis
  proof (cases "0 < currentFrameDelay w \<and> \<not> isPaused w")
    case True
    let ?r = "next_ref w"
    have "(2::int) \<le> 60" by simp
    from new_session_ready [OF None this, of "currentFrameDelay w"] obtain w1 w2 where
      *: "FrameSync_new w v 60 (currentFrameDelay w) = (?r, w1)" "Activate w1 ?r = Inr w2"
         "ring_ok (heap w2 ?r)" "active (heap w2 ?r)" "video (heap w2 ?r) = v"
         "\<forall>q. q \<noteq> ?r \<longrightarrow> heap w2 q = heap w q"
         "videos w2 = (videos w)(v := (videos w v)\<lparr>frameSyncObj := Some ?r\<rparr>)"
         "next_ref w2 = Suc ?r"
      by (elim exE conjE)
    have "raf w1 = raf w"
      using *(1) FrameSync_new_fresh [OF None, of 60 "currentFrameDelay w"] by auto
    with Activate_raf [OF *(2)] have raf: "\<forall>cb \<in> set (raf w2). cb \<in> set (raf w) \<or> callback_ref cb = ?r"
      by simp
    from new_session_inv [OF inv None * raf] have "script_inv w2" .
    with * True None show ?thesis
      by (simp add: updateSyncForVideo_def)
  next
    case False
    with None inv show ?thesis
      by (auto simp: updateSyncForVideo_def)
  qed
next
  case (Some obj)
  show ?thesis
  proof (cases "0 < currentFrameDelay w \<and> \<not> isPaused w")
    case True
    let ?w' = "w\<lparr>heap := (heap w)(obj := (heap w obj)\<lparr>frameDelayMs := currentFrameDelay w\<rparr>)\<rparr>"
    from script_invD(1) [OF inv Some] have obj: "obj < next_ref w" .
    from script_invD(4) [OF inv obj] have "keeps obj w ?w'"
      by (simp add: keeps_def ring_ok_def)
    from keeps_inv [OF this obj inv] True Some show ?thesis
      by (simp add: updateSyncForVideo_def)
  next
    case False
    with Deactivate_inv [OF inv Some] Some show ?thesis
      by (auto simp: updateSyncForVideo_def)
  qed
qed

lemma forEach_video_inv:
  fixes w :: "('t::linordered_idom) page"
  assumes "script_inv w"
  shows "\<exists>w'. forEach_video w vs = Inr w' \<and> script_inv w'"
  using assms
proof (induction vs arbitrary: w)
  case Nil
  then show ?case by simp
next
  case (Cons v vs)
  from updateSyncForVideo_inv [OF Cons.prems, of v] obtain w1 where
    "updateSyncForVideo w v = Inr w1" "script_inv w1"
    by blast
  with Cons.IH [of w1] show ?case by simp
qed

lemma step_inv:
  fixes w :: "('t::linordered_idom) page"
  assumes inv: "script_inv w"
  shows "\<exists>w'. step w e = Inr w' \<and> script_inv w'"
proof (cases e)
  case (StorageChanged fd pd)
  let ?w1 = "case fd of Some d \<Rightarrow> w\<lparr>currentFrameDelay := d\<rparr> | None \<Rightarrow> w"
  let ?w2 = "case pd of Some p \<Rightarrow> ?w1\<lparr>isPaused := p\<rparr> | None \<Rightarrow> ?w1"
  have "script_inv ?w1"
    using inv by (cases fd) (simp_all add: script_inv_def)
  then have "script_inv ?w2"
    by (cases pd) (simp_all add: script_inv_def)
  from forEach_video_inv [OF this, of "videoList ?w2"] StorageChanged show ?thesis
    by (simp add: step_def onChanged_def updateSyncForVideos_def Let_def)
next
  case NodesAdded
  with forEach_video_inv [OF inv, of "videoList w"] show ?thesis
    by (simp add: step_def updateSyncForVideos_def)
next
  case (AnimationFrame now fails)
  from inv have "script_inv (w\<lparr>raf := []\<rparr>)"
    "\<forall>cb \<in> set (raf w). callback_ref cb < next_ref (w\<lparr>raf := []\<rparr>)"
    by (simp_all add: script_inv_def)
  from run_callbacks_inv [OF this, of now fails] AnimationFrame show ?thesis
    by (simp add: step_def)
next
  case (ResizeObserved r)
  show ?thesis
  proof (cases "r < next_ref w \<and> resizeObserver (heap w r) \<noteq> None")
    case True
    with inv have "ring_ok (heap w r)"
      by (simp add: script_inv_def)
    from Resize_keeps_page [OF this] obtain w' where "Resize w r = Inr w'" "keeps r w w'"
      by blast
    with keeps_inv [OF this(2) _ inv] True ResizeObserved show ?thesis
      by (simp add: step_def)
  next
    case False
    with inv ResizeObserved show ?thesis
      by (auto simp: step_def)
  qed
next
  case (HostChanged vs h vl)
  with inv show ?thesis
    by (simp add: step_def script_inv_def)
qed

lemma reachable_inv:
  fixes w :: "('t::linordered_idom) page"
  shows "reachable w \<Longrightarrow> script_inv w"
proof (induction rule: reachable.induct)
  case (start w)
  then show ?case
    by (simp add: initial_def script_inv_def)
next
  case (after w e w')
  with step_inv [of w e] show ?case
    by simp
qed

lemma script_never_throws:
  fixes w :: "('t::linordered_idom) page"
  assumes "reachable w"
  shows "\<exists>w'. step w e = Inr w'"
proof -
  from step_inv [OF reachable_inv [OF assms], of e] obtain w' where "step w e = Inr w'"
    by (elim exE conjE)
  then show ?thesis ..
qed

lemma one_active_session_per_video:
  fixes w :: "('t::linordered_idom) page"
  assumes "reachable w" "r < next_ref w" "r' < next_ref w"
    and "active (heap w r)" "active (heap w r')" "video (heap w r) = video (heap w r')"
  shows "r = r'"
proof -
  note inv = reachable_inv [OF assms(1)]
  have "Some r = frameSyncObj (videos w (video (heap w r)))"
    using script_invD(5) [OF inv assms(2,4)] by (rule sym)
  also have "\<dots> = frameSyncObj (videos w (video (heap w r')))"
    by (simp only: assms(6))
  also have "\<dots> = Some r'"
    by (rule script_invD(5) [OF inv assms(3,5)])
  finally show ?thesis
    by (simp only: option.inject)
qed

lemma example_live_facts:
  "reachable example_live" "next_ref example_live = 1" "active (heap example_live 0)"
  "video (heap example_live 0) = 0" "frameSyncObj (videos example_live 0) = Some 0"
  "maxBuffer (heap example_live 0) = 60" "frameDelayMs (heap example_live 0) = 100"
proof -
  let ?w = "example_page\<lparr>currentFrameDelay := 100\<rparr>"
  have none: "frameSyncObj (videos ?w 0) = None" and r: "next_ref ?w = 0"
    by (simp_all add: example_page_def example_video_def)
  have "(2::int) \<le> 60" by simp
  from new_session_ready [OF none this, of 100] r obtain w1 w2 where
    *: "FrameSync_new ?w 0 60 100 = (0, w1)" "Activate w1 0 = Inr w2"
       "active (heap w2 0)" "video (heap w2 0) = 0" "maxBuffer (heap w2 0) = 60"
       "frameDelayMs (heap w2 0) = 100"
       "videos w2 = (videos ?w)(0 := (videos ?w 0)\<lparr>frameSyncObj := Some 0\<rparr>)"
       "next_ref w2 = Suc 0"
    by auto
  have st: "step example_page (StorageChanged (Some 100) None) = Inr w2"
    using * none by (simp add: step_def onChanged_def updateSyncForVideos_def
        updateSyncForVideo_def example_page_def)
  then have eq: "example_live = w2"
    by (simp add: example_live_def)
  have "initial example_page"
    by (simp add: initial_def example_page_def example_video_def)
  then have "reachable example_page"
    by (rule reachable.start)
  from reachable.after [OF this st] show "reachable example_live"
    by (simp add: eq)
  from * show "next_ref example_live = 1" "active (heap example_live 0)"
    "video (heap example_live 0) = 0" "frameSyncObj (videos example_live 0) = Some 0"
    "maxBuffer (heap example_live 0) = 60" "frameDelayMs (heap example_live 0) = 100"
    by (simp_all add: eq)
qed


subsection \<open>One session per video\<close>

text \<open>
  C6. A video carries at most one session, in its \<open>frameSyncObj\<close> field. Constructing a
  session for a video that already carries one returns that object; the page afterwards
  differs from the page before in the \<open>frameDelayMs\<close> of that object only: no object is
  allocated and no link is changed. In every state the script can reach, at any time, two
  active sessions never belong to the same video, and every active session is the one its
  video links to.
\<close>

theorem one_session_per_video:
  fixes w :: "('t::linordered_idom) page"
  shows "(frameSyncObj (videos w v) = Some existing \<longrightarrow>
            FrameSync_new w v n d =
              (existing, w\<lparr>heap := (heap w)(existing := (heap w existing)\<lparr>frameDelayMs := d\<rparr>)\<rparr>) \<and>
            next_ref (snd (FrameSync_new w v n d)) = next_ref w \<and>
            videos (snd (FrameSync_new w v n d)) = videos w) \<and>
         (reachable w \<longrightarrow>
            (\<forall>r r'. r < next_ref w \<and> r' < next_ref w \<and> active (heap w r) \<and> active (heap w r') \<and>
                    video (heap w r) = video (heap w r') \<longrightarrow> r = r') \<and>
            (\<forall>r. r < next_ref w \<and> active (heap w r) \<longrightarrow>
                    frameSyncObj (videos w (video (heap w r))) = Some r))"
proof (intro conjI impI allI)
  assume "frameSyncObj (videos w v) = Some existing"
  then show "FrameSync_new w v n d =
      (existing, w\<lparr>heap := (heap w)(existing := (heap w existing)\<lparr>frameDelayMs := d\<rparr>)\<rparr>)"
    "next_ref (snd (FrameSync_new w v n d)) = next_ref w"
    "videos (snd (FrameSync_new w v n d)) = videos w"
    by (simp_all add: FrameSync_new_def)
next
  fix r r'
  assume "reachable w"
    "r < next_ref w \<and> r' < next_ref w \<and> active (heap w r) \<and> active (heap w r') \<and>
     video (heap w r) = video (heap w r')"
  then show "r = r'"
    using one_active_session_per_video [of w r r'] by simp
next
  fix r
  assume "reachable w" "r < next_ref w \<and> active (heap w r)"
  then show "frameSyncObj (videos w (video (heap w r))) = Some r"
    using script_invD(5) [OF reachable_inv, of w r] by simp
qed

theorem one_session_per_video_witness:
  "fst (FrameSync_new example_live 0 60 250) = 0 \<and>
   next_ref (snd (FrameSync_new example_live 0 60 250)) = 1 \<and>
   frameDelayMs (heap (snd (FrameSync_new example_live 0 60 250)) 0) = 250 \<and>
   maxBuffer (heap (snd (FrameSync_new example_live 0 60 250)) 0) = 60 \<and>
   reachable example_live \<and> active (heap example_live 0) \<and>
   frameSyncObj (videos example_live (video (heap example_live 0))) = Some 0"
  using one_session_per_video [of example_live 0 0 60 250]
  by (simp add: example_live_facts)

subsection \<open>The playback cycle, exactly\<close>

lemma drawFrame_exact:
  fixes w :: "('t::linordered_idom) page"
  shows "drawFrame w this now fails =
           Inr (let s = heap w this; best = findBestFrameToShow s (now - frameDelayMs s)
                in if active s \<and> \<not> paused (videos w (video s)) \<and>
                      best \<noteq> - 1 \<and> best \<noteq> lastDrawnFrameIndex s \<and>
                      0 < width (frame (buffer s ! nat best)) \<and>
                      0 < height (frame (buffer s ! nat best))
                   then (case canvas s of
                           None \<Rightarrow>
                             w\<lparr>console := console w @ [Error_drawing_frame TypeError],
                               raf := raf w @ [DrawFrameFunc this]\<rparr>
                         | Some c \<Rightarrow>
                             if fails
                             then w\<lparr>console := console w @ [Error_drawing_frame HostRenderError],
                                    raf := raf w @ [DrawFrameFunc this]\<rparr>
                             else w\<lparr>heap := (heap w)(this := s
                                      \<lparr>canvas := Some (if width c = 0 \<or> height c = 0 then c
                                          else c\<lparr>pixels := pixels (frame (buffer s ! nat best))\<rparr>),
                                       lastDrawnFrameIndex := best\<rparr>),
                                    raf := raf w @ [DrawFrameFunc this]\<rparr>)
                   else w\<lparr>raf := raf w @ [DrawFrameFunc this]\<rparr>)"
proof -
  let ?s = "heap w this"
  let ?b = "findBestFrameToShow ?s (now - frameDelayMs ?s)"
  from findBestFrameToShow_range [of ?s "now - frameDelayMs ?s"]
  consider "?b = - 1" | k where "k < length (buffer ?s)" "?b = int k"
    by blast
  then show ?thesis
  proof cases
    case 1
    then show ?thesis
      by (simp add: drawFrame_def Let_def requestAnimationFrame_def)
  next
    case 2
    then have "js_index (buffer ?s) (Some ?b) = Some (k, buffer ?s ! k)"
      by (simp add: js_index_def)
    with 2 show ?thesis
      by (simp add: drawFrame_def Let_def requestAnimationFrame_def console_log_def
          drawImage_canvas_def split: option.split)
  qed
qed

lemma findBestFrameToShow_single:
  fixes s :: "('t::linordered_idom) FrameSync"
  assumes "i < length (buffer s)" "captureTs (buffer s ! i) \<noteq> 0"
    and "\<forall>j < length (buffer s). j \<noteq> i \<longrightarrow> captureTs (buffer s ! j) = 0"
  shows "findBestFrameToShow s t = int i"
proof -
  from assms(1,2) have "\<not> (\<forall>j < length (buffer s). captureTs (buffer s ! j) = 0)"
    by blast
  with findBestFrameToShow_spec [of s t] obtain k where
    "k < length (buffer s)" "findBestFrameToShow s t = int k" "captureTs (buffer s ! k) \<noteq> 0"
    by (auto split: if_splits)
  with assms(3) show ?thesis
    by (cases "k = i") auto
qed

lemma Resize_loop_id:
  "\<forall>f \<in> set buf. BufferFrame_Resize w f = f \<Longrightarrow> \<forall>i \<in> set idxs. i < length buf \<Longrightarrow>
   Resize_loop w idxs buf = Inr buf"
  by (induction idxs) simp_all

text \<open>A new session of valid capacity for a video with a picture size, once activated.\<close>

lemma new_session_exact:
  fixes w :: "('t::zero) page"
  assumes none: "frameSyncObj (videos w v) = None" and n: "2 \<le> n"
    and dims: "0 < videoWidth (videos w v)" "0 < videoHeight (videos w v)"
  shows "(case FrameSync_new w v n d of (this, w1) \<Rightarrow> Activate w1 this) =
           Inr (w\<lparr>heap := (heap w)(next_ref w :=
                    \<lparr>video = v,
                     buffer = replicate (nat n)
                       \<lparr>frame = \<lparr>width = videoWidth (videos w v), height = videoHeight (videos w v),
                                 pixels = None\<rparr>,
                        bf_video = v, captureTs = 0\<rparr>,
                     maxBuffer = n, frameDelayMs = d, active = True, frameCount = 0,
                     lastDrawnFrameIndex = - 1, resizeObserver = Some v,
                     canvas = Some \<lparr>width = videoWidth (videos w v),
                                    height = videoHeight (videos w v), pixels = None\<rparr>\<rparr>),
                  next_ref := Suc (next_ref w),
                  videos := (videos w)(v := (videos w v)\<lparr>frameSyncObj := Some (next_ref w)\<rparr>),
                  raf := raf w @ [CaptureFrameFunc (next_ref w), DrawFrameFunc (next_ref w)]\<rparr>)"
proof -
  let ?r = "next_ref w"
  let ?F = "\<lparr>frame = \<lparr>width = videoWidth (videos w v), height = videoHeight (videos w v),
                       pixels = None\<rparr>, bf_video = v, captureTs = 0 :: 't\<rparr>"
  let ?vs = "(videos w)(v := (videos w v)\<lparr>frameSyncObj := Some ?r\<rparr>)"
  have F: "BufferFrame_new w v = ?F"
    by (simp add: BufferFrame_new_def BufferFrame_Resize_def createElement_canvas_def Let_def)
  have loop: "Resize_loop w' [0 ..< nat n] (replicate (nat n) ?F) = Inr (replicate (nat n) ?F)"
    if "videos w' = ?vs" for w' :: "'t page"
    by (rule Resize_loop_id) (simp_all add: BufferFrame_Resize_def that Let_def)
  show ?thesis
    using dims n
    by (simp add: FrameSync_new_fresh [OF none n] F Activate_def createCanvasOverlay_def
        Resize_def Let_def loop createElement_canvas_def requestAnimationFrame_def)
qed

lemma example_live_eq:
  "example_live =
     \<lparr>videos = (\<lambda>_. example_video)(0 := example_video\<lparr>frameSyncObj := Some 0\<rparr>),
      videoList = [0], hidden = False,
      heap = (\<lambda>_. unallocated)(0 :=
        \<lparr>video = 0,
         buffer = replicate 60
           \<lparr>frame = \<lparr>width = 640, height = 360, pixels = None\<rparr>, bf_video = 0, captureTs = 0\<rparr>,
         maxBuffer = 60, frameDelayMs = 100, active = True, frameCount = 0,
         lastDrawnFrameIndex = - 1, resizeObserver = Some 0,
         canvas = Some \<lparr>width = 640, height = 360, pixels = None\<rparr>\<rparr>),
      next_ref = 1, console = [], raf = [CaptureFrameFunc 0, DrawFrameFunc 0],
      currentFrameDelay = 100, isPaused = False\<rparr>"
proof -
  let ?w = "example_page\<lparr>currentFrameDelay := 100\<rparr>"
  have "frameSyncObj (videos ?w 0) = None" "(2::int) \<le> 60"
    "0 < videoWidth (videos ?w 0)" "0 < videoHeight (videos ?w 0)"
    by (simp_all add: example_page_def example_video_def)
  from new_session_exact [OF this, of 100] show ?thesis
    by (simp add: example_live_def step_def onChanged_def updateSyncForVideos_def
        updateSyncForVideo_def example_page_def example_video_def)
qed

lemma example_render_failed_eq:
  "example_render_failed =
     \<lparr>videos = (\<lambda>_. example_video)(0 := example_video\<lparr>frameSyncObj := Some 0\<rparr>),
      videoList = [0], hidden = False,
      heap = (\<lambda>_. unallocated)(0 :=
        \<lparr>video = 0,
         buffer = (replicate 60
           \<lparr>frame = \<lparr>width = 640, height = 360, pixels = None\<rparr>, bf_video = 0, captureTs = 0\<rparr>)
           [0 := \<lparr>frame = \<lparr>width = 640, height = 360, pixels = Some 7\<rparr>, bf_video = 0,
                  captureTs = 16\<rparr>],
         maxBuffer = 60, frameDelayMs = 100, active = True, frameCount = 1,
         lastDrawnFrameIndex = - 1, resizeObserver = Some 0,
         canvas = Some \<lparr>width = 640, height = 360, pixels = None\<rparr>\<rparr>),
      next_ref = 1, console = [Error_drawing_frame HostRenderError],
      raf = [CaptureFrameFunc 0, DrawFrameFunc 0],
      currentFrameDelay = 100, isPaused = False\<rparr>"
proof -
  let ?F = "\<lparr>frame = \<lparr>width = 640, height = 360, pixels = None\<rparr>, bf_video = 0,
              captureTs = 0 :: int\<rparr>"
  let ?F' = "\<lparr>frame = \<lparr>width = 640, height = 360, pixels = Some 7\<rparr>, bf_video = 0,
               captureTs = 16 :: int\<rparr>"
  let ?s = "\<lparr>video = 0, buffer = (replicate 60 ?F)[0 := ?F'],
             maxBuffer = 60, frameDelayMs = 100, active = True, frameCount = 1,
             lastDrawnFrameIndex = - 1, resizeObserver = Some 0,
             canvas = Some \<lparr>width = 640, height = 360, pixels = None\<rparr>\<rparr>"
  have best: "findBestFrameToShow ?s t = 0" for t
    using findBestFrameToShow_single [of 0 ?s t] by (simp add: nth_list_update)
  show ?thesis
    by (simp add: example_render_failed_def example_live_eq step_def captureFrame_def
        CaptureFrame_def host_defs drawFrame_exact best Let_def example_video_def)
qed

lemma example_render_failed_reachable: "reachable example_render_failed"
proof -
  have live: "reachable example_live"
    by (rule example_live_facts)
  from script_never_throws [OF live, of "AnimationFrame 16 (\<lambda>_. True)"] obtain w' where
    w': "step example_live (AnimationFrame 16 (\<lambda>_. True)) = Inr w'"
    by blast
  then have "example_render_failed = w'"
    by (simp add: example_render_failed_def)
  with reachable.after [OF live w'] show ?thesis
    by simp
qed

subsection \<open>No handler throws\<close>

text \<open>
  C9. In every state the script can reach, whatever the browser delivers next (a settings
  change, added nodes, an animation frame with any timestamp and any render failures, a
  resize observation, a change of the page), the handler returns without throwing, and the
  state it leaves is reachable again. For every session of such a state:
  \<^item> a capture cycle returns; when its guard passes it writes the next slot through
    \<open>CaptureFrame\<close> (a no-op for a video without dimensions), adds 1 to \<open>frameCount\<close>, logs
    the overflow warning exactly when the overflow test fires, and reschedules itself;
    otherwise it only reschedules itself;
  \<^item> a playback cycle returns; when it attempts a render and the render fails (the host's
    \<open>drawImage\<close> throws, or there is no overlay), the error is caught and logged, the
    session is left as it was (the frame is skipped, \<open>lastDrawnFrameIndex\<close> stays) and the
    cycle is rescheduled;
  \<^item> \<open>Resize\<close> and \<open>Activate\<close> return;
  \<^item> \<open>SetMaxBuffer n\<close> with \<open>n < 2\<close> logs the error and changes nothing else.
\<close>

theorem engine_never_throws:
  fixes w :: "('t::linordered_idom) page"
  assumes "reachable w"
  shows "(\<exists>w'. step w e = Inr w' \<and> reachable w') \<and>
         (r < next_ref w \<longrightarrow>
            captureFrame w r now =
              Inr (if active (heap w r) \<and> \<not> paused (videos w (video (heap w r))) \<and> \<not> hidden w
                   then w\<lparr>heap := (heap w)(r := (heap w r)
                            \<lparr>buffer := (buffer (heap w r))
                               [nat (frameCount (heap w r) mod maxBuffer (heap w r)) :=
                                  CaptureFrame w now
                                    (buffer (heap w r) !
                                       nat (frameCount (heap w r) mod maxBuffer (heap w r)))],
                             frameCount := frameCount (heap w r) + 1\<rparr>),
                          console := console w @
                            (if overflow_detected (heap w r) now then [Warn_buffer_overflow]
                             else []),
                          raf := raf w @ [CaptureFrameFunc r]\<rparr>
                   else w\<lparr>raf := raf w @ [CaptureFrameFunc r]\<rparr>) \<and>
            drawFrame w r now fails =
              Inr (let s = heap w r; best = findBestFrameToShow s (now - frameDelayMs s)
                   in if active s \<and> \<not> paused (videos w (video s)) \<and>
                         best \<noteq> - 1 \<and> best \<noteq> lastDrawnFrameIndex s \<and>
                         0 < width (frame (buffer s ! nat best)) \<and>
                         0 < height (frame (buffer s ! nat best))
                      then (case canvas s of
                              None \<Rightarrow>
                                w\<lparr>console := console w @ [Error_drawing_frame TypeError],
                                  raf := raf w @ [DrawFrameFunc r]\<rparr>
                            | Some c \<Rightarrow>
                                if fails
                                then w\<lparr>console := console w @ [Error_drawing_frame HostRenderError],
                                       raf := raf w @ [DrawFrameFunc r]\<rparr>
                                else w\<lparr>heap := (heap w)(r := s
                                         \<lparr>canvas := Some (if width c = 0 \<or> height c = 0 then c
                                             else c\<lparr>pixels := pixels (frame (buffer s ! nat best))\<rparr>),
                                          lastDrawnFrameIndex := best\<rparr>),
                                       raf := raf w @ [DrawFrameFunc r]\<rparr>)
                      else w\<lparr>raf := raf w @ [DrawFrameFunc r]\<rparr>) \<and>
            (\<exists>w'. Resize w r = Inr w') \<and>
            (\<exists>w'. Activate w r = Inr w') \<and>
            (n < 2 \<longrightarrow>
               SetMaxBuffer w r n = w\<lparr>console := console w @ [Error_maxBuffer_at_least_2]\<rparr>))"
proof (intro conjI impI)
  from step_inv [OF reachable_inv [OF assms], of e] obtain w' where w': "step w e = Inr w'"
    by (elim exE conjE)
  from reachable.after [OF assms w'] w' show "\<exists>w'. step w e = Inr w' \<and> reachable w'"
    by blast
next
  assume r: "r < next_ref w"
  from script_invD(4) [OF reachable_inv [OF assms] r] have ok: "ring_ok (heap w r)" .
  show "captureFrame w r now =
          Inr (if active (heap w r) \<and> \<not> paused (videos w (video (heap w r))) \<and> \<not> hidden w
               then w\<lparr>heap := (heap w)(r := (heap w r)
                        \<lparr>buffer := (buffer (heap w r))
                           [nat (frameCount (heap w r) mod maxBuffer (heap w r)) :=
                              CaptureFrame w now
                                (buffer (heap w r) !
                                   nat (frameCount (heap w r) mod maxBuffer (heap w r)))],
                         frameCount := frameCount (heap w r) + 1\<rparr>),
                      console := console w @
                        (if overflow_detected (heap w r) now then [Warn_buffer_overflow]
                         else []),
                      raf := raf w @ [CaptureFrameFunc r]\<rparr>
               else w\<lparr>raf := raf w @ [CaptureFrameFunc r]\<rparr>)"
  proof (cases "active (heap w r) \<and> \<not> paused (videos w (video (heap w r))) \<and> \<not> hidden w")
    case True
    then have env: "active (heap w r)" "\<not> paused (videos w (video (heap w r)))" "\<not> hidden w"
      by simp_all
    from True show ?thesis
      unfolding captureFrame_step [OF ok env] by simp
  next
    case False
    then show ?thesis
      by (auto simp: captureFrame_def requestAnimationFrame_def)
  qed
  show "drawFrame w r now fails =
          Inr (let s = heap w r; best = findBestFrameToShow s (now - frameDelayMs s)
               in if active s \<and> \<not> paused (videos w (video s)) \<and>
                     best \<noteq> - 1 \<and> best \<noteq> lastDrawnFrameIndex s \<and>
                     0 < width (frame (buffer s ! nat best)) \<and>
                     0 < height (frame (buffer s ! nat best))
                  then (case canvas s of
                          None \<Rightarrow>
                            w\<lparr>console := console w @ [Error_drawing_frame TypeError],
                              raf := raf w @ [DrawFrameFunc r]\<rparr>
                        | Some c \<Rightarrow>
                            if fails
                            then w\<lparr>console := console w @ [Error_drawing_frame HostRenderError],
                                   raf := raf w @ [DrawFrameFunc r]\<rparr>
                            else w\<lparr>heap := (heap w)(r := s
                                     \<lparr>canvas := Some (if width c = 0 \<or> height c = 0 then c
                                         else c\<lparr>pixels := pixels (frame (buffer s ! nat best))\<rparr>),
                                      lastDrawnFrameIndex := best\<rparr>),
                                   raf := raf w @ [DrawFrameFunc r]\<rparr>)
                  else w\<lparr>raf := raf w @ [DrawFrameFunc r]\<rparr>)"
    by (rule drawFrame_exact)
  from ring_ok_no_throw(3) [OF ok] show "\<exists>w'. Resize w r = Inr w'"
    by blast
  from ring_ok_no_throw(4) [OF ok] show "\<exists>w'. Activate w r = Inr w'"
    by blast
next
  assume "n < 2"
  then show "SetMaxBuffer w r n = w\<lparr>console := console w @ [Error_maxBuffer_at_least_2]\<rparr>"
    by (simp add: SetMaxBuffer_def console_log_def)
qed

theorem engine_never_throws_witness:
  "reachable example_render_failed \<and>
   (\<exists>w'. step example_render_failed (AnimationFrame 33 (\<lambda>_. True)) = Inr w') \<and>
   map_sum id (\<lambda>w. (frameCount (heap w 0), map captureTs (take 2 (buffer (heap w 0))), console w))
     (captureFrame example_render_failed 0 33) =
     Inr (2, [16, 33], [Error_drawing_frame HostRenderError]) \<and>
   map_sum id (\<lambda>w. (console w, lastDrawnFrameIndex (heap w 0), frameCount (heap w 0)))
     (drawFrame example_render_failed 0 33 True) =
     Inr ([Error_drawing_frame HostRenderError, Error_drawing_frame HostRenderError], - 1, 1) \<and>
   SetMaxBuffer example_render_failed 0 1 =
     example_render_failed
       \<lparr>console := [Error_drawing_frame HostRenderError, Error_maxBuffer_at_least_2]\<rparr>"
proof -
  let ?F = "\<lparr>frame = \<lparr>width = 640, height = 360, pixels = None\<rparr>, bf_video = 0,
              captureTs = 0 :: int\<rparr>"
  let ?F' = "\<lparr>frame = \<lparr>width = 640, height = 360, pixels = Some 7\<rparr>, bf_video = 0,
               captureTs = 16 :: int\<rparr>"
  let ?s = "\<lparr>video = 0, buffer = (replicate 60 ?F)[0 := ?F'],
             maxBuffer = 60, frameDelayMs = 100, active = True, frameCount = 1,
             lastDrawnFrameIndex = - 1, resizeObserver = Some 0,
             canvas = Some \<lparr>width = 640, height = 360, pixels = None\<rparr>\<rparr>"
  have best: "findBestFrameToShow ?s t = 0" for t
    using findBestFrameToShow_single [of 0 ?s t] by (simp add: nth_list_update)
  have two: "take 2 xs = (case xs of [] \<Rightarrow> [] | x # ys \<Rightarrow> x # take 1 ys)" for xs :: "'a list"
    by (cases xs) (simp_all add: numeral_2_eq_2)
  note inst = engine_never_throws [OF example_render_failed_reachable,
      of "AnimationFrame 33 (\<lambda>_. True)" 0 33 True 1]
  have s: "heap example_render_failed 0 = ?s" "next_ref example_render_failed = 1"
    "\<not> hidden example_render_failed" "\<not> paused (videos example_render_failed 0)"
    "console example_render_failed = [Error_drawing_frame HostRenderError]"
    "videos example_render_failed 0 = example_video\<lparr>frameSyncObj := Some 0\<rparr>"
    by (simp_all add: example_render_failed_eq example_video_def)
  from inst have "\<exists>w'. step example_render_failed (AnimationFrame 33 (\<lambda>_. True)) = Inr w'"
    by blast
  moreover from inst have
    "map_sum id (\<lambda>w. (frameCount (heap w 0), map captureTs (take 2 (buffer (heap w 0))), console w))
       (captureFrame example_render_failed 0 33) =
     Inr (2, [16, 33], [Error_drawing_frame HostRenderError])"
    by (simp add: s overflow_detected_def CaptureFrame_def example_video_def
        drawImage_video_def Let_def numeral_2_eq_2 take_Suc_conv_app_nth nth_list_update)
  moreover from inst have
    "map_sum id (\<lambda>w. (console w, lastDrawnFrameIndex (heap w 0), frameCount (heap w 0)))
       (drawFrame example_render_failed 0 33 True) =
     Inr ([Error_drawing_frame HostRenderError, Error_drawing_frame HostRenderError], - 1, 1)"
    by (simp add: s best Let_def nth_list_update example_video_def)
  moreover from inst have
    "SetMaxBuffer example_render_failed 0 1 =
       example_render_failed
         \<lparr>console := [Error_drawing_frame HostRenderError, Error_maxBuffer_at_least_2]\<rparr>"
    by (simp add: s)
  ultimately show ?thesis
    using example_render_failed_reachable by blast
qed

subsection \<open>Changing the delay at run time\<close>

lemma updateSyncForVideo_paused:
  fixes w :: "('t::linordered_idom) page"
  assumes "updateSyncForVideo w v = Inr w'"
  shows "paused (videos w' u) = paused (videos w u)"
proof (cases "frameSyncObj (videos w v)")
  case None
  show ?thesis
  proof (cases "0 < currentFrameDelay w \<and> \<not> isPaused w")
    case True
    have "(2::int) \<le> 60" by simp
    from new_session_ready [OF None this, of "currentFrameDelay w"] obtain w1 w2 where
      "FrameSync_new w v 60 (currentFrameDelay w) = (next_ref w, w1)"
      "Activate w1 (next_ref w) = Inr w2"
      "videos w2 = (videos w)(v := (videos w v)\<lparr>frameSyncObj := Some (next_ref w)\<rparr>)"
      by (elim exE conjE)
    with assms True None show ?thesis
      by (auto simp: updateSyncForVideo_def)
  next
    case False
    with assms None show ?thesis
      by (auto simp: updateSyncForVideo_def)
  qed
next
  case (Some obj)
  with assms show ?thesis
    by (auto simp: updateSyncForVideo_def Deactivate_eq split: if_splits)
qed

lemma forEach_video_paused:
  fixes w :: "('t::linordered_idom) page"
  shows "forEach_video w vs = Inr w' \<Longrightarrow> paused (videos w' u) = paused (videos w u)"
proof (induction vs arbitrary: w)
  case Nil
  then show ?case by simp
next
  case (Cons v vs)
  then obtain w1 where w1: "updateSyncForVideo w v = Inr w1" "forEach_video w1 vs = Inr w'"
    by (auto split: sum.splits)
  from Cons.IH [OF w1(2)] updateSyncForVideo_paused [OF w1(1), of u] show ?case
    by simp
qed

text \<open>
  C7 as stated does not hold for every change of the delay and every live session. When
  the delay changes to 0, the live session is deactivated and unlinked, and its
  \<open>frameDelayMs\<close> keeps the old value (100). When the delay changes to 250 while the
  session's video is not among the videos of the document (it has been detached), the
  session stays active and linked and keeps the old delay of 100.
\<close>

theorem delay_zero_or_detached_video:
  "map_sum id (\<lambda>w. (active (heap w 0), frameDelayMs (heap w 0), frameSyncObj (videos w 0)))
     (case onChanged example_page (Some 100) None of
        Inl e \<Rightarrow> Inl e
      | Inr w \<Rightarrow> onChanged w (Some 0) None) = Inr (False, 100, None) \<and>
   map_sum id
     (\<lambda>w. (active (heap w 0), frameDelayMs (heap w 0), frameSyncObj (videos w 0),
           currentFrameDelay w))
     (case step example_live (HostChanged (\<lambda>_. example_video) False []) of
        Inl e \<Rightarrow> Inl e
      | Inr w \<Rightarrow> onChanged w (Some 250) None) = Inr (True, 100, Some 0, 250)"
proof
  let ?w = "example_page\<lparr>currentFrameDelay := 100\<rparr>"
  have none: "frameSyncObj (videos ?w 0) = None" and r: "next_ref ?w = 0"
    by (simp_all add: example_page_def example_video_def)
  from new_session_ready [OF none, of 60 100] r obtain w1 w2 where
    *: "FrameSync_new ?w 0 60 100 = (0, w1)" "Activate w1 0 = Inr w2"
       "video (heap w2 0) = 0" "frameDelayMs (heap w2 0) = 100"
       "videos w2 = (videos ?w)(0 := (videos ?w 0)\<lparr>frameSyncObj := Some 0\<rparr>)"
       "videoList w2 = videoList ?w" "isPaused w2 = isPaused ?w"
    by auto
  have first: "onChanged example_page (Some 100) None = Inr w2"
    using * none by (simp add: onChanged_def updateSyncForVideos_def updateSyncForVideo_def
        example_page_def)
  have "onChanged w2 (Some 0) None = Inr (Deactivate (w2\<lparr>currentFrameDelay := 0\<rparr>) 0)"
    using * by (simp add: onChanged_def updateSyncForVideos_def updateSyncForVideo_def
        example_page_def)
  with first * show
    "map_sum id (\<lambda>w. (active (heap w 0), frameDelayMs (heap w 0), frameSyncObj (videos w 0)))
       (case onChanged example_page (Some 100) None of
          Inl e \<Rightarrow> Inl e
        | Inr w \<Rightarrow> onChanged w (Some 0) None) = Inr (False, 100, None)"
    by (simp add: Deactivate_eq)
next
  show "map_sum id
     (\<lambda>w. (active (heap w 0), frameDelayMs (heap w 0), frameSyncObj (videos w 0),
           currentFrameDelay w))
     (case step example_live (HostChanged (\<lambda>_. example_video) False []) of
        Inl e \<Rightarrow> Inl e
      | Inr w \<Rightarrow> onChanged w (Some 250) None) = Inr (True, 100, Some 0, 250)"
    by (simp add: example_live_eq step_def onChanged_def updateSyncForVideos_def)
qed

text \<open>
  C7, amended. When the configured delay changes to a positive value \<open>d\<close> while the script
  is not paused, a live session whose video is in the document gets the new delay in place
  and is otherwise unchanged: buffer (hence every \<open>captureTs\<close>), \<open>frameCount\<close>,
  \<open>lastDrawnFrameIndex\<close> and \<open>active\<close> are as before. The next playback cycle computes its
  target from the new delay: it selects the slot for \<open>now - d\<close> over the unchanged buffer,
  and if the session is active, the video plays, the selection is a slot other than the
  last drawn one and its bitmap has a size, it paints that slot on the overlay and records
  it in \<open>lastDrawnFrameIndex\<close> (or logs the error when the render fails); otherwise it only
  reschedules itself.
\<close>

theorem delay_change_updates_in_place:
  fixes w :: "('t::linordered_idom) page"
  assumes d: "0 < d" and run: "\<not> isPaused w"
    and live: "frameSyncObj (videos w v) = Some this" "v \<in> set (videoList w)"
    and alloc: "this < next_ref w"
  shows "\<exists>w'. onChanged w (Some d) None = Inr w' \<and>
           heap w' this = (heap w this)\<lparr>frameDelayMs := d\<rparr> \<and>
           frameDelayMs (heap w' this) = d \<and>
           buffer (heap w' this) = buffer (heap w this) \<and>
           frameCount (heap w' this) = frameCount (heap w this) \<and>
           lastDrawnFrameIndex (heap w' this) = lastDrawnFrameIndex (heap w this) \<and>
           active (heap w' this) = active (heap w this) \<and>
           (\<forall>now fails.
              drawFrame w' this now fails =
                Inr (let s = heap w this; best = findBestFrameToShow s (now - d)
                     in if active s \<and> \<not> paused (videos w (video s)) \<and>
                           best \<noteq> - 1 \<and> best \<noteq> lastDrawnFrameIndex s \<and>
                           0 < width (frame (buffer s ! nat best)) \<and>
                           0 < height (frame (buffer s ! nat best))
                        then (case canvas s of
                                None \<Rightarrow>
                                  w'\<lparr>console := console w' @ [Error_drawing_frame TypeError],
                                     raf := raf w' @ [DrawFrameFunc this]\<rparr>
                              | Some c \<Rightarrow>
                                  if fails
                                  then w'\<lparr>console := console w' @
                                            [Error_drawing_frame HostRenderError],
                                          raf := raf w' @ [DrawFrameFunc this]\<rparr>
                                  else w'\<lparr>heap := (heap w')(this := s
                                            \<lparr>frameDelayMs := d,
                                             canvas := Some (if width c = 0 \<or> height c = 0 then c
                                               else c\<lparr>pixels :=
                                                      pixels (frame (buffer s ! nat best))\<rparr>),
                                             lastDrawnFrameIndex := best\<rparr>),
                                          raf := raf w' @ [DrawFrameFunc this]\<rparr>)
                        else w'\<lparr>raf := raf w' @ [DrawFrameFunc this]\<rparr>))"
proof -
  let ?w0 = "w\<lparr>currentFrameDelay := d\<rparr>"
  have "0 < currentFrameDelay ?w0" "\<not> isPaused ?w0" "this < next_ref ?w0"
    using d run alloc by simp_all
  from forEach_video_delay [OF this, of "videoList w"] live obtain w' where
    w': "forEach_video ?w0 (videoList w) = Inr w'"
        "heap w' this = (heap w this)\<lparr>frameDelayMs := d\<rparr>"
    by auto
  have sel: "findBestFrameToShow ((heap w this)\<lparr>frameDelayMs := d\<rparr>) t =
             findBestFrameToShow (heap w this) t" for t
    by (simp add: findBestFrameToShow_def)
  have p: "paused (videos w' u) = paused (videos w u)" for u
    using forEach_video_paused [OF w'(1), of u] by simp
  have draw: "drawFrame w' this now fails =
                Inr (let s = heap w this; best = findBestFrameToShow s (now - d)
                     in if active s \<and> \<not> paused (videos w (video s)) \<and>
                           best \<noteq> - 1 \<and> best \<noteq> lastDrawnFrameIndex s \<and>
                           0 < width (frame (buffer s ! nat best)) \<and>
                           0 < height (frame (buffer s ! nat best))
                        then (case canvas s of
                                None \<Rightarrow>
                                  w'\<lparr>console := console w' @ [Error_drawing_frame TypeError],
                                     raf := raf w' @ [DrawFrameFunc this]\<rparr>
                              | Some c \<Rightarrow>
                                  if fails
                                  then w'\<lparr>console := console w' @
                                            [Error_drawing_frame HostRenderError],
                                          raf := raf w' @ [DrawFrameFunc this]\<rparr>
                                  else w'\<lparr>heap := (heap w')(this := s
                                            \<lparr>frameDelayMs := d,
                                             canvas := Some (if width c = 0 \<or> height c = 0 then c
                                               else c\<lparr>pixels :=
                                                      pixels (frame (buffer s ! nat best))\<rparr>),
                                             lastDrawnFrameIndex := best\<rparr>),
                                          raf := raf w' @ [DrawFrameFunc this]\<rparr>)
                        else w'\<lparr>raf := raf w' @ [DrawFrameFunc this]\<rparr>)" for now fails
    unfolding drawFrame_exact [of w' this now fails]
    by (simp add: w'(2) sel p Let_def split: option.split)
  have "onChanged w (Some d) None = Inr w'"
    using w'(1) by (simp add: onChanged_def updateSyncForVideos_def)
  with w'(2) draw show ?thesis
    by simp
qed

lemma example_two_frames_eq:
  "heap example_two_frames 0 =
     \<lparr>video = 0,
      buffer =
        [\<lparr>frame = \<lparr>width = 640, height = 360, pixels = Some 7\<rparr>, bf_video = 0, captureTs = 5\<rparr>,
         \<lparr>frame = \<lparr>width = 640, height = 360, pixels = Some 7\<rparr>, bf_video = 0, captureTs = 200\<rparr>],
      maxBuffer = 2, frameDelayMs = 10, active = True, frameCount = 2,
      lastDrawnFrameIndex = - 1, resizeObserver = Some 0,
      canvas = Some \<lparr>width = 640, height = 360, pixels = None\<rparr>\<rparr>"
  "next_ref example_two_frames = 1" "\<not> isPaused example_two_frames"
  "videos example_two_frames 0 = example_video\<lparr>frameSyncObj := Some 0\<rparr>"
  "videoList example_two_frames = [0]"
  by (simp_all add: example_two_frames_def example_session_def example_defs host_defs run_defs
      eval_nat_numeral upt_rec)

theorem delay_change_updates_in_place_witness:
  "map_sum id
     (\<lambda>w. (frameDelayMs (heap w 0), lastDrawnFrameIndex (heap w 0),
           map captureTs (buffer (heap w 0)), frameCount (heap w 0)))
     (case onChanged example_two_frames (Some 250) None of
        Inl e \<Rightarrow> Inl e
      | Inr w' \<Rightarrow> drawFrame w' 0 255 False) = Inr (250, 0, [5, 200], 2) \<and>
   findBestFrameToShow (heap example_two_frames 0) (255 - 10) = 1"
proof -
  have link: "frameSyncObj (videos example_two_frames 0) = Some 0"
    "0 \<in> set (videoList example_two_frames)" "0 < next_ref example_two_frames"
    by (simp_all add: example_two_frames_eq)
  from delay_change_updates_in_place [of 250 example_two_frames 0 0, OF _ example_two_frames_eq(3) link]
  obtain w' where w': "onChanged example_two_frames (Some 250) None = Inr w'"
    and draw: "drawFrame w' 0 255 False =
                Inr (let s = heap example_two_frames 0; best = findBestFrameToShow s (255 - 250)
                     in if active s \<and> \<not> paused (videos example_two_frames (video s)) \<and>
                           best \<noteq> - 1 \<and> best \<noteq> lastDrawnFrameIndex s \<and>
                           0 < width (frame (buffer s ! nat best)) \<and>
                           0 < height (frame (buffer s ! nat best))
                        then (case canvas s of
                                None \<Rightarrow>
                                  w'\<lparr>console := console w' @ [Error_drawing_frame TypeError],
                                     raf := raf w' @ [DrawFrameFunc 0]\<rparr>
                              | Some c \<Rightarrow>
                                  if False
                                  then w'\<lparr>console := console w' @
                                            [Error_drawing_frame HostRenderError],
                                          raf := raf w' @ [DrawFrameFunc 0]\<rparr>
                                  else w'\<lparr>heap := (heap w')(0 := s
                                            \<lparr>frameDelayMs := 250,
                                             canvas := Some (if width c = 0 \<or> height c = 0 then c
                                               else c\<lparr>pixels :=
                                                      pixels (frame (buffer s ! nat best))\<rparr>),
                                             lastDrawnFrameIndex := best\<rparr>),
                                          raf := raf w' @ [DrawFrameFunc 0]\<rparr>)
                        else w'\<lparr>raf := raf w' @ [DrawFrameFunc 0]\<rparr>)"
    by auto
  have sel: "findBestFrameToShow (heap example_two_frames 0) 5 = 0"
    "findBestFrameToShow (heap example_two_frames 0) 245 = 1"
    by (simp_all add: example_two_frames_eq findBestFrameToShow_def)
  show ?thesis
    by (simp add: w' draw sel) (simp add: example_two_frames_eq example_video_def)
qed

end
